theory Spec2Isabelle
  imports Main "HOL-Library.Word"
begin

section \<open>Shared constants and return codes\<close>

text \<open>
  The headers \<^verbatim>\<open>dberror.h\<close>, \<^verbatim>\<open>storage_mgr.h\<close> and \<^verbatim>\<open>buffer_mgr.h\<close> are not part
  of the sources at hand; the two C files use their constants, return codes and struct
  declarations. Their content is taken from the way the C files use them and from the
  specification.
\<close>

type_synonym byte = "8 word"

text \<open>Modelled from the spec: the macro \<^verbatim>\<open>PAGE_SIZE\<close> of the missing header
  \<^verbatim>\<open>dberror.h\<close>, the number of bytes of a page (4096).\<close>

definition PAGE_SIZE :: nat where
  "PAGE_SIZE = 4096"

text \<open>Modelled from the spec: the macro \<^verbatim>\<open>NO_PAGE\<close> of the missing header
  \<^verbatim>\<open>buffer_mgr.h\<close>, the page number of an empty frame (-1).\<close>

definition NO_PAGE :: int where
  "NO_PAGE = - 1"

text \<open>The return codes that the two C files name.\<close>

datatype RC =
    RC_OK
  | RC_FILE_NOT_FOUND
  | RC_FILE_HANDLE_NOT_INIT
  | RC_WRITE_FAILED
  | RC_READ_NON_EXISTING_PAGE
  | RC_BUFF_POOL_NOT_FOUND
  | RC_PINNED_PAGES_IN_BUFFER
  | RC_ERROR

section \<open>The storage manager (\<^verbatim>\<open>storage_mgr.c\<close>)\<close>

text \<open>
  The file system is a map from file names to the bytes of the file. \<^verbatim>\<open>fopen\<close> in the
  modes \<^verbatim>\<open>"r"\<close> and \<^verbatim>\<open>"r+"\<close> succeeds exactly when the file exists. The mode \<^verbatim>\<open>"a+"\<close>
  opens an existing file and creates a missing one. Whether the mode \<^verbatim>\<open>"w+"\<close> can
  create or empty a file depends on the directory and not on the files there are, and is
  an argument of \<^verbatim>\<open>createPageFile\<close>. \<^verbatim>\<open>fseek\<close> fails on a negative offset and on no
  other. The device itself does not fail and the heap is not exhausted, so \<^verbatim>\<open>calloc\<close>,
  \<^verbatim>\<open>malloc\<close>, \<^verbatim>\<open>ftell\<close> and a write of a whole block succeed (a read past the end of
  the file is short, as in C).

  Page numbers and counters are mathematical integers, the 32-bit \<^verbatim>\<open>int\<close> of the
  source taken within its range. The results of its arithmetic that can leave that
  range on page numbers a client may pass, the products \<^verbatim>\<open>pageNum * PAGE_SIZE\<close> and the
  sum \<^verbatim>\<open>pageNum + 1\<close>, wrap around at 32 bits as they do in the compiled program.

  A pointer argument is an \<open>option\<close>: \<open>None\<close> is \<^verbatim>\<open>NULL\<close>, \<open>Some x\<close> a valid pointer
  to \<open>x\<close>. A function that writes through a pointer returns the new pointee.
\<close>

type_synonym disk = "string \<Rightarrow> byte list option"

type_synonym SM_PageHandle = "byte list option"

record SM_FileHandle =
  fileName :: string
  curPagePos :: int
  totalNumPages :: int

text \<open>The expression \<^verbatim>\<open>(fileSize % PAGE_SIZE == 0) ? fileSize / PAGE_SIZE :
  fileSize / PAGE_SIZE + 1\<close>, written twice in the source (lines 89 and 358).\<close>

definition pagesOfSize :: "nat \<Rightarrow> int" where
  "pagesOfSize fileSize =
     (if fileSize mod PAGE_SIZE = 0 then int (fileSize div PAGE_SIZE)
      else int (fileSize div PAGE_SIZE) + 1)"

text \<open>The \<^verbatim>\<open>int\<close> that an arithmetic result becomes: itself within the range from
  \<open>- 2\<^sup>3\<^sup>1\<close> to \<open>2\<^sup>3\<^sup>1 - 1\<close>, wrapped around at 32 bits outside.\<close>

definition int32 :: "int \<Rightarrow> int" where
  "int32 x = (x + 2 ^ 31) mod 2 ^ 32 - 2 ^ 31"

text \<open>The expression \<^verbatim>\<open>pageNum * PAGE_SIZE\<close> of \<^verbatim>\<open>writeBlock\<close> (line 327), written
  \<^verbatim>\<open>PAGE_SIZE * pageNum\<close> in \<^verbatim>\<open>readBlock\<close> (line 178): a product of two \<^verbatim>\<open>int\<close>s and so
  an \<^verbatim>\<open>int\<close>, which \<^verbatim>\<open>fseek\<close> receives as its offset.\<close>

definition blockOffset :: "int \<Rightarrow> int" where
  "blockOffset pageNum = int32 (pageNum * int PAGE_SIZE)"

text \<open>\<^verbatim>\<open>fseek\<close> to \<open>off\<close> followed by \<^verbatim>\<open>fwrite\<close> of \<open>xs\<close>: the bytes before
  \<open>off\<close> stay, a gap beyond the old end reads as zeros, the bytes after the written
  range stay.\<close>

definition fwriteAt :: "nat \<Rightarrow> byte list \<Rightarrow> byte list \<Rightarrow> byte list" where
  "fwriteAt off xs bytes =
     take off bytes @ replicate (off - length bytes) 0 @ xs @ drop (off + length xs) bytes"

text \<open>\<^verbatim>\<open>fseek\<close> to \<open>off\<close> followed by \<^verbatim>\<open>fread\<close> of at most \<open>n\<close> bytes.\<close>

definition freadAt :: "nat \<Rightarrow> nat \<Rightarrow> byte list \<Rightarrow> byte list" where
  "freadAt off n bytes = take n (drop off bytes)"

text \<open>\<^verbatim>\<open>createPageFile\<close> opens the file in mode \<^verbatim>\<open>"w+"\<close>, which creates the file or
  empties the one there is, and writes one block of zeros. The argument \<open>canCreate\<close>
  says whether that \<^verbatim>\<open>fopen\<close> succeeds.\<close>

definition createPageFile :: "string \<Rightarrow> bool \<Rightarrow> disk \<Rightarrow> RC \<times> disk" where
  "createPageFile fname canCreate d =
     (if \<not> canCreate then (RC_FILE_NOT_FOUND, d)
      else (RC_OK, d(fname \<mapsto> replicate PAGE_SIZE 0)))"

text \<open>\<^verbatim>\<open>openPageFile\<close> dereferences \<^verbatim>\<open>fHandle\<close> without a test, so the model takes the
  pointee.\<close>

definition openPageFile :: "string \<Rightarrow> SM_FileHandle \<Rightarrow> disk \<Rightarrow> RC \<times> SM_FileHandle" where
  "openPageFile fname fHandle d =
     (case d fname of
        None \<Rightarrow> (RC_FILE_NOT_FOUND, fHandle)
      | Some bytes \<Rightarrow>
          (RC_OK, fHandle\<lparr>fileName := fname, curPagePos := 0,
                          totalNumPages := pagesOfSize (length bytes)\<rparr>))"

definition closePageFile :: "SM_FileHandle option \<Rightarrow> disk \<Rightarrow> RC" where
  "closePageFile fHandle d =
     (case fHandle of
        None \<Rightarrow> RC_FILE_HANDLE_NOT_INIT
      | Some fh \<Rightarrow>
          (case d (fileName fh) of None \<Rightarrow> RC_FILE_NOT_FOUND | Some bytes \<Rightarrow> RC_OK))"

definition destroyPageFile :: "string \<Rightarrow> disk \<Rightarrow> RC \<times> disk" where
  "destroyPageFile fname d =
     (case d fname of
        None \<Rightarrow> (RC_FILE_NOT_FOUND, d)
      | Some bytes \<Rightarrow> (RC_OK, d(fname := None)))"

text \<open>\<^verbatim>\<open>readBlock\<close> returns the code, the handle and the buffer. The bytes read land in
  the buffer also when fewer than \<^verbatim>\<open>PAGE_SIZE\<close> of them arrive. A failing \<^verbatim>\<open>fseek\<close>
  returns before \<^verbatim>\<open>curPagePos\<close> is set.\<close>

definition readBlock ::
  "int \<Rightarrow> SM_FileHandle option \<Rightarrow> SM_PageHandle \<Rightarrow> disk
     \<Rightarrow> RC \<times> SM_FileHandle option \<times> SM_PageHandle" where
  "readBlock pageNum fHandle memPage d =
     (case fHandle of
        None \<Rightarrow> (RC_FILE_HANDLE_NOT_INIT, None, memPage)
      | Some fh \<Rightarrow>
          (case memPage of
             None \<Rightarrow> (RC_WRITE_FAILED, Some fh, None)
           | Some buf \<Rightarrow>
               if pageNum < 0 \<or> pageNum \<ge> totalNumPages fh
               then (RC_READ_NON_EXISTING_PAGE, Some fh, Some buf)
               else
                 (case d (fileName fh) of
                    None \<Rightarrow> (RC_FILE_NOT_FOUND, Some fh, Some buf)
                  | Some bytes \<Rightarrow>
                      if blockOffset pageNum < 0
                      then (RC_READ_NON_EXISTING_PAGE, Some fh, Some buf)
                      else
                        let got = freadAt (nat (blockOffset pageNum)) PAGE_SIZE bytes;
                            buf' = got @ drop (length got) buf;
                            fh' = fh\<lparr>curPagePos := pageNum\<rparr>
                        in if length got < PAGE_SIZE
                           then (RC_READ_NON_EXISTING_PAGE, Some fh', Some buf')
                           else (RC_OK, Some fh', Some buf'))))"

definition getBlockPos :: "SM_FileHandle \<Rightarrow> int" where
  "getBlockPos fh = curPagePos fh"

text \<open>\<^verbatim>\<open>writeBlock\<close> asks \<^verbatim>\<open>fwrite\<close> for \<^verbatim>\<open>PAGE_SIZE\<close> bytes of the buffer. A buffer
  that the buffer pool allocated has them. A shorter buffer stands for a write that is
  cut short: \<^verbatim>\<open>fwrite\<close> writes the bytes there are and returns their number, and
  \<^verbatim>\<open>writeBlock\<close> fails with these bytes in the file. This is the branch
  \<^verbatim>\<open>bytesWritten != PAGE_SIZE\<close> of the source. The two failures after the write has
  succeeded (\<^verbatim>\<open>fseek\<close> to the end, \<^verbatim>\<open>ftell\<close>) do not occur.\<close>

definition writeBlock ::
  "int \<Rightarrow> SM_FileHandle option \<Rightarrow> SM_PageHandle \<Rightarrow> disk
     \<Rightarrow> RC \<times> SM_FileHandle option \<times> disk" where
  "writeBlock pageNum fHandle memPage d =
     (case fHandle of
        None \<Rightarrow> (RC_FILE_HANDLE_NOT_INIT, None, d)
      | Some fh \<Rightarrow>
          (case memPage of
             None \<Rightarrow> (RC_WRITE_FAILED, Some fh, d)
           | Some buf \<Rightarrow>
               if pageNum < 0 \<or> pageNum > totalNumPages fh
               then (RC_WRITE_FAILED, Some fh, d)
               else
                 (case d (fileName fh) of
                    None \<Rightarrow> (RC_FILE_NOT_FOUND, Some fh, d)
                  | Some bytes \<Rightarrow>
                      if blockOffset pageNum < 0 then (RC_WRITE_FAILED, Some fh, d)
                      else
                        let written = take PAGE_SIZE buf;
                            bytes' = fwriteAt (nat (blockOffset pageNum)) written bytes
                        in if length written \<noteq> PAGE_SIZE
                           then (RC_WRITE_FAILED, Some fh, d(fileName fh \<mapsto> bytes'))
                           else
                             (RC_OK,
                              Some (fh\<lparr>curPagePos := pageNum,
                                       totalNumPages := pagesOfSize (length bytes')\<rparr>),
                              d(fileName fh \<mapsto> bytes')))))"

text \<open>\<^verbatim>\<open>appendEmptyBlock\<close> opens the file in mode \<^verbatim>\<open>"a+"\<close>, which creates a missing
  file, and writes one block of zeros at its end.\<close>

definition appendEmptyBlock ::
  "SM_FileHandle option \<Rightarrow> disk \<Rightarrow> RC \<times> SM_FileHandle option \<times> disk" where
  "appendEmptyBlock fHandle d =
     (case fHandle of
        None \<Rightarrow> (RC_FILE_HANDLE_NOT_INIT, None, d)
      | Some fh \<Rightarrow>
          let bytes = (case d (fileName fh) of None \<Rightarrow> [] | Some bs \<Rightarrow> bs);
              newBlock = replicate PAGE_SIZE (0 :: byte)
          in (RC_OK, Some (fh\<lparr>totalNumPages := totalNumPages fh + 1\<rparr>),
              d(fileName fh \<mapsto> bytes @ newBlock)))"

text \<open>The \<^verbatim>\<open>while\<close> loop of \<^verbatim>\<open>ensureCapacity\<close>.\<close>

function ensureCapacity_while ::
  "int \<Rightarrow> SM_FileHandle \<Rightarrow> disk \<Rightarrow> RC \<times> SM_FileHandle option \<times> disk" where
  "ensureCapacity_while numberOfPages fh d =
     (if totalNumPages fh < numberOfPages
      then
        (case appendEmptyBlock (Some fh) d of
           (result, fHandle', d') \<Rightarrow>
             if result \<noteq> RC_OK then (result, fHandle', d')
             else
               (case fHandle' of
                  None \<Rightarrow> (result, None, d')
                | Some fh' \<Rightarrow> ensureCapacity_while numberOfPages fh' d'))
      else (RC_OK, Some fh, d))"
  by pat_completeness auto
termination
  by (relation "measure (\<lambda>(n, fh, d). nat (n - totalNumPages fh))")
     (auto simp: appendEmptyBlock_def Let_def split: if_splits)

declare ensureCapacity_while.simps [simp del]

definition ensureCapacity ::
  "int \<Rightarrow> SM_FileHandle option \<Rightarrow> disk \<Rightarrow> RC \<times> SM_FileHandle option \<times> disk" where
  "ensureCapacity numberOfPages fHandle d =
     (case fHandle of
        None \<Rightarrow> (RC_FILE_HANDLE_NOT_INIT, None, d)
      | Some fh \<Rightarrow>
          (case d (fileName fh) of
             None \<Rightarrow> (RC_FILE_NOT_FOUND, Some fh, d)
           | Some bytes \<Rightarrow>
               if totalNumPages fh \<ge> numberOfPages then (RC_OK, Some fh, d)
               else ensureCapacity_while numberOfPages fh d))"

section \<open>The buffer manager (\<^verbatim>\<open>buffer_mgr.c\<close>)\<close>

text \<open>Modelled from the spec: the enumeration \<^verbatim>\<open>ReplacementStrategy\<close> of the missing
  header \<^verbatim>\<open>buffer_mgr.h\<close>. The source names \<^verbatim>\<open>RS_FIFO\<close>, \<^verbatim>\<open>RS_LRU\<close> and
  \<^verbatim>\<open>RS_CLOCK\<close>; \<open>RS_OTHER\<close> stands for any further enumerator, which \<^verbatim>\<open>pinPage\<close>
  sends to the \<^verbatim>\<open>default\<close> branch of its \<^verbatim>\<open>switch\<close>.\<close>

datatype ReplacementStrategy = RS_FIFO | RS_LRU | RS_CLOCK | RS_OTHER

text \<open>Modelled from the spec: the structs \<^verbatim>\<open>FrameInfo\<close>, \<^verbatim>\<open>BufferPoolInfo\<close>,
  \<^verbatim>\<open>BM_BufferPool\<close> and \<^verbatim>\<open>BM_PageHandle\<close> of the missing header, with the fields the
  source reads and writes. The flags \<^verbatim>\<open>dirtybit\<close> and \<^verbatim>\<open>secondChance\<close> only ever hold
  0 or 1 and are booleans. The array \<^verbatim>\<open>frames\<close> is a list and \<^verbatim>\<open>bufferSize\<close> is its
  length. A buffer is held by value: \<^verbatim>\<open>data\<close> is \<open>None\<close> for \<^verbatim>\<open>NULL\<close>, and the
  \<^verbatim>\<open>data\<close> of a page handle (here \<open>hdata\<close>) is the buffer of its frame at the time
  of the pin.\<close>

record FrameInfo =
  data :: SM_PageHandle
  pageNumber :: int
  dirtybit :: bool
  accessCount :: int
  secondChance :: bool
  recentHit :: int
  index :: int

record BufferPoolInfo =
  frames :: "FrameInfo list"
  readCount :: int
  writeCount :: int
  recentHitCount :: int
  frameIndex :: nat
  clockPointer :: nat

definition bufferSize :: "BufferPoolInfo \<Rightarrow> nat" where
  "bufferSize poolInfo = length (frames poolInfo)"

record BM_BufferPool =
  pageFile :: string
  numPages :: int
  strategy :: ReplacementStrategy
  mgmtData :: "BufferPoolInfo option"

record BM_PageHandle =
  pageNum :: int
  hdata :: SM_PageHandle

text \<open>A local \<^verbatim>\<open>SM_FileHandle fh;\<close> before \<^verbatim>\<open>openPageFile\<close> fills it. The source never
  reads it in that state.\<close>

definition fhLocal :: SM_FileHandle where
  "fhLocal = \<lparr>fileName = [], curPagePos = 0, totalNumPages = 0\<rparr>"

text \<open>The result of \<^verbatim>\<open>malloc(PAGE_SIZE)\<close>: a buffer of \<^verbatim>\<open>PAGE_SIZE\<close> bytes, which the
  source fills with \<^verbatim>\<open>readBlock\<close> before any use.\<close>

definition mallocPage :: SM_PageHandle where
  "mallocPage = Some (replicate PAGE_SIZE 0)"

text \<open>The scan \<^verbatim>\<open>for (i = 0; i < bufferSize; i++) if (frames[i].pageNumber == p)\<close>
  that \<^verbatim>\<open>markDirty\<close>, \<^verbatim>\<open>unpinPage\<close>, \<^verbatim>\<open>forcePage\<close> and \<^verbatim>\<open>pinPage\<close> open with: the
  index of the first frame that holds page \<open>p\<close>.\<close>

fun findFrame :: "int \<Rightarrow> FrameInfo list \<Rightarrow> nat option" where
  "findFrame p [] = None"
| "findFrame p (f # fs) =
     (if pageNumber f = p then Some 0 else map_option Suc (findFrame p fs))"

definition emptyFrame :: FrameInfo where
  "emptyFrame = \<lparr>data = None, pageNumber = NO_PAGE, dirtybit = False, accessCount = 0,
                  secondChance = False, recentHit = 0, index = 0\<rparr>"

definition initBufferPool ::
  "BM_BufferPool option \<Rightarrow> string option \<Rightarrow> int \<Rightarrow> ReplacementStrategy
     \<Rightarrow> RC \<times> BM_BufferPool option" where
  "initBufferPool bm pageFileName numPgs strat =
     (case bm of
        None \<Rightarrow> (RC_BUFF_POOL_NOT_FOUND, None)
      | Some b \<Rightarrow>
          (case pageFileName of
             None \<Rightarrow> (RC_FILE_NOT_FOUND, Some b)
           | Some fname \<Rightarrow>
               if numPgs \<le> 0 then (RC_ERROR, Some b)
               else
                 let poolInfo =
                       \<lparr>frames = replicate (nat numPgs) emptyFrame,
                        readCount = 0, writeCount = 0, recentHitCount = 0,
                        frameIndex = 0, clockPointer = 0\<rparr>
                 in (RC_OK,
                     Some (b\<lparr>pageFile := fname, numPages := numPgs, strategy := strat,
                              mgmtData := Some poolInfo\<rparr>))))"

text \<open>The loop of \<^verbatim>\<open>forceFlushPool\<close> (lines 159 to 169) over the frames, first to
  last. It returns the code, the frames, \<^verbatim>\<open>writeCount\<close>, the file handle and the
  disk.\<close>

fun forceFlushPool_loop ::
  "FrameInfo list \<Rightarrow> int \<Rightarrow> SM_FileHandle option \<Rightarrow> disk
     \<Rightarrow> RC \<times> FrameInfo list \<times> int \<times> SM_FileHandle option \<times> disk" where
  "forceFlushPool_loop [] wc fh d = (RC_OK, [], wc, fh, d)"
| "forceFlushPool_loop (f # fs) wc fh d =
     (if dirtybit f \<and> accessCount f = 0
      then
        (case writeBlock (pageNumber f) fh (data f) d of
           (rc, fh', d') \<Rightarrow>
             if rc \<noteq> RC_OK then (RC_WRITE_FAILED, f # fs, wc, fh', d')
             else
               (case forceFlushPool_loop fs (wc + 1) fh' d' of
                  (rc2, fs', wc', fh'', d'') \<Rightarrow>
                    (rc2, f\<lparr>dirtybit := False\<rparr> # fs', wc', fh'', d'')))
      else
        (case forceFlushPool_loop fs wc fh d of
           (rc2, fs', wc', fh'', d'') \<Rightarrow> (rc2, f # fs', wc', fh'', d'')))"

definition forceFlushPool ::
  "BM_BufferPool option \<Rightarrow> disk \<Rightarrow> RC \<times> BM_BufferPool option \<times> disk" where
  "forceFlushPool bm d =
     (case bm of
        None \<Rightarrow> (RC_BUFF_POOL_NOT_FOUND, None, d)
      | Some b \<Rightarrow>
          (case mgmtData b of
             None \<Rightarrow> (RC_ERROR, Some b, d)
           | Some poolInfo \<Rightarrow>
               (case openPageFile (pageFile b) fhLocal d of
                  (rc, fh) \<Rightarrow>
                    if rc \<noteq> RC_OK then (RC_FILE_NOT_FOUND, Some b, d)
                    else
                      (case forceFlushPool_loop (frames poolInfo) (writeCount poolInfo)
                              (Some fh) d of
                         (rc', fs', wc', fh', d') \<Rightarrow>
                           (rc',
                            Some (b\<lparr>mgmtData :=
                                      Some (poolInfo\<lparr>frames := fs', writeCount := wc'\<rparr>)\<rparr>),
                            d')))))"

definition shutdownBufferPool ::
  "BM_BufferPool option \<Rightarrow> disk \<Rightarrow> RC \<times> BM_BufferPool option \<times> disk" where
  "shutdownBufferPool bm d =
     (case bm of
        None \<Rightarrow> (RC_BUFF_POOL_NOT_FOUND, None, d)
      | Some b \<Rightarrow>
          (case mgmtData b of
             None \<Rightarrow> (RC_ERROR, Some b, d)
           | Some poolInfo0 \<Rightarrow>
               (case forceFlushPool (Some b) d of
                  (result, bm', d') \<Rightarrow>
                    if result \<noteq> RC_OK then (result, bm', d')
                    else
                      (case bm' of
                         None \<Rightarrow> (RC_BUFF_POOL_NOT_FOUND, None, d')
                       | Some b' \<Rightarrow>
                           (case mgmtData b' of
                              None \<Rightarrow> (RC_ERROR, Some b', d')
                            | Some poolInfo \<Rightarrow>
                                if list_ex (\<lambda>f. accessCount f \<noteq> 0) (frames poolInfo)
                                then (RC_PINNED_PAGES_IN_BUFFER, Some b', d')
                                else (RC_OK, Some (b'\<lparr>mgmtData := None\<rparr>), d'))))))"

definition markDirty ::
  "BM_BufferPool option \<Rightarrow> BM_PageHandle option \<Rightarrow> disk
     \<Rightarrow> RC \<times> BM_BufferPool option \<times> disk" where
  "markDirty bm page d =
     (case bm of
        None \<Rightarrow> (RC_BUFF_POOL_NOT_FOUND, None, d)
      | Some b \<Rightarrow>
          (case page of
             None \<Rightarrow> (RC_ERROR, Some b, d)
           | Some pg \<Rightarrow>
               (case mgmtData b of
                  None \<Rightarrow> (RC_ERROR, Some b, d)
                | Some poolInfo \<Rightarrow>
                    (case findFrame (pageNum pg) (frames poolInfo) of
                       None \<Rightarrow> (RC_ERROR, Some b, d)
                     | Some i \<Rightarrow>
                         (RC_OK,
                          Some (b\<lparr>mgmtData := Some (poolInfo\<lparr>frames :=
                             (frames poolInfo)[i := (frames poolInfo ! i)\<lparr>dirtybit := True\<rparr>]\<rparr>)\<rparr>),
                          d)))))"

definition unpinPage ::
  "BM_BufferPool option \<Rightarrow> BM_PageHandle option \<Rightarrow> disk
     \<Rightarrow> RC \<times> BM_BufferPool option \<times> disk" where
  "unpinPage bm page d =
     (case bm of
        None \<Rightarrow> (RC_BUFF_POOL_NOT_FOUND, None, d)
      | Some b \<Rightarrow>
          (case page of
             None \<Rightarrow> (RC_ERROR, Some b, d)
           | Some pg \<Rightarrow>
               (case mgmtData b of
                  None \<Rightarrow> (RC_ERROR, Some b, d)
                | Some poolInfo \<Rightarrow>
                    (case findFrame (pageNum pg) (frames poolInfo) of
                       None \<Rightarrow> (RC_OK, Some b, d)
                     | Some i \<Rightarrow>
                         if accessCount (frames poolInfo ! i) > 0
                         then
                           (RC_OK,
                            Some (b\<lparr>mgmtData := Some (poolInfo\<lparr>frames :=
                               (frames poolInfo)[i := (frames poolInfo ! i)
                                  \<lparr>accessCount := accessCount (frames poolInfo ! i) - 1\<rparr>]\<rparr>)\<rparr>),
                            d)
                         else (RC_OK, Some b, d)))))"

definition forcePage ::
  "BM_BufferPool option \<Rightarrow> BM_PageHandle option \<Rightarrow> disk
     \<Rightarrow> RC \<times> BM_BufferPool option \<times> disk" where
  "forcePage bm page d =
     (case bm of
        None \<Rightarrow> (RC_BUFF_POOL_NOT_FOUND, None, d)
      | Some b \<Rightarrow>
          (case page of
             None \<Rightarrow> (RC_ERROR, Some b, d)
           | Some pg \<Rightarrow>
               (case mgmtData b of
                  None \<Rightarrow> (RC_ERROR, Some b, d)
                | Some poolInfo \<Rightarrow>
                    (case openPageFile (pageFile b) fhLocal d of
                       (rc, fh) \<Rightarrow>
                         if rc \<noteq> RC_OK then (RC_FILE_NOT_FOUND, Some b, d)
                         else
                           (case findFrame (pageNum pg) (frames poolInfo) of
                              None \<Rightarrow> (RC_OK, Some b, d)
                            | Some i \<Rightarrow>
                                (case writeBlock (pageNumber (frames poolInfo ! i)) (Some fh)
                                        (data (frames poolInfo ! i)) d of
                                   (rcw, fh', d') \<Rightarrow>
                                     if rcw \<noteq> RC_OK then (RC_WRITE_FAILED, Some b, d')
                                     else
                                       (RC_OK,
                                        Some (b\<lparr>mgmtData := Some (poolInfo\<lparr>frames :=
                                           (frames poolInfo)[i := (frames poolInfo ! i)
                                              \<lparr>dirtybit := False\<rparr>],
                                           writeCount := writeCount poolInfo + 1\<rparr>)\<rparr>),
                                        d')))))))"

text \<open>The block that FIFO (lines 450 to 458), LRU (lines 506 to 514) and CLOCK (lines
  548 to 556) each run on the victim \<open>idx\<close>: when the frame is dirty and the page file
  opens, write the frame and count the write. The source ignores what \<^verbatim>\<open>writeBlock\<close>
  returns.\<close>

definition writeVictim ::
  "BM_BufferPool \<Rightarrow> nat \<Rightarrow> BufferPoolInfo \<Rightarrow> disk \<Rightarrow> BufferPoolInfo \<times> disk" where
  "writeVictim bm idx poolInfo d =
     (if dirtybit (frames poolInfo ! idx)
      then
        (case openPageFile (pageFile bm) fhLocal d of
           (rc, fh) \<Rightarrow>
             if rc = RC_OK
             then
               (case writeBlock (pageNumber (frames poolInfo ! idx)) (Some fh)
                       (data (frames poolInfo ! idx)) d of
                  (rcw, fh', d') \<Rightarrow> (poolInfo\<lparr>writeCount := writeCount poolInfo + 1\<rparr>, d'))
             else (poolInfo, d))
      else (poolInfo, d))"

text \<open>The loop of \<^verbatim>\<open>FIFO\<close>; the first argument is the number of attempts left,
  \<^verbatim>\<open>bufferSize - attempts\<close>.\<close>

fun FIFO_loop ::
  "nat \<Rightarrow> BM_BufferPool \<Rightarrow> FrameInfo \<Rightarrow> BufferPoolInfo \<Rightarrow> disk
     \<Rightarrow> BufferPoolInfo \<times> disk" where
  "FIFO_loop 0 bm page poolInfo d = (poolInfo, d)"
| "FIFO_loop (Suc k) bm page poolInfo d =
     (let idx = frameIndex poolInfo
      in if accessCount (frames poolInfo ! idx) = 0
         then
           (case writeVictim bm idx poolInfo d of
              (p1, d1) \<Rightarrow>
                (p1\<lparr>frames := (frames p1)[idx := (frames p1 ! idx)
                        \<lparr>data := data page, pageNumber := pageNumber page,
                         dirtybit := dirtybit page, accessCount := accessCount page\<rparr>],
                    frameIndex := (frameIndex p1 + 1) mod bufferSize p1\<rparr>,
                 d1))
         else FIFO_loop k bm page
                (poolInfo\<lparr>frameIndex := (frameIndex poolInfo + 1) mod bufferSize poolInfo\<rparr>)
                d)"

definition FIFO :: "BM_BufferPool \<Rightarrow> FrameInfo \<Rightarrow> disk \<Rightarrow> BM_BufferPool \<times> disk" where
  "FIFO bm page d =
     (case mgmtData bm of
        None \<Rightarrow> (bm, d)
      | Some poolInfo \<Rightarrow>
          (case FIFO_loop (bufferSize poolInfo) bm page poolInfo d of
             (p', d') \<Rightarrow> (bm\<lparr>mgmtData := Some p'\<rparr>, d')))"

text \<open>The scan of \<^verbatim>\<open>LRU\<close> (lines 492 to 499): \<open>i\<close> is the index of the head of the
  list, the pair is \<^verbatim>\<open>replaceIdx\<close> and \<^verbatim>\<open>leastRecentHit\<close>.\<close>

fun LRU_scan :: "FrameInfo list \<Rightarrow> nat \<Rightarrow> int \<times> int \<Rightarrow> int \<times> int" where
  "LRU_scan [] i acc = acc"
| "LRU_scan (f # fs) i (replaceIdx, leastRecentHit) =
     (if accessCount f = 0 \<and> recentHit f < leastRecentHit
      then LRU_scan fs (Suc i) (int i, recentHit f)
      else LRU_scan fs (Suc i) (replaceIdx, leastRecentHit))"

definition LRU :: "BM_BufferPool \<Rightarrow> FrameInfo \<Rightarrow> disk \<Rightarrow> BM_BufferPool \<times> disk" where
  "LRU bm page d =
     (case mgmtData bm of
        None \<Rightarrow> (bm, d)
      | Some poolInfo \<Rightarrow>
          (case LRU_scan (frames poolInfo) 0 (- 1, recentHitCount poolInfo + 1) of
             (replaceIdx, leastRecentHit) \<Rightarrow>
               if replaceIdx = - 1 then (bm, d)
               else
                 (case writeVictim bm (nat replaceIdx) poolInfo d of
                    (p1, d1) \<Rightarrow>
                      (bm\<lparr>mgmtData := Some (p1\<lparr>frames :=
                          (frames p1)[nat replaceIdx := (frames p1 ! nat replaceIdx)
                             \<lparr>data := data page, pageNumber := pageNumber page,
                              dirtybit := dirtybit page, accessCount := accessCount page,
                              recentHit := recentHit page\<rparr>]\<rparr>)\<rparr>,
                       d1))))"

text \<open>The loop of \<^verbatim>\<open>CLOCK\<close>; the first argument is the number of attempts left,
  \<^verbatim>\<open>maxAttempts - attempts\<close>.\<close>

fun CLOCK_loop ::
  "nat \<Rightarrow> BM_BufferPool \<Rightarrow> FrameInfo \<Rightarrow> BufferPoolInfo \<Rightarrow> disk
     \<Rightarrow> BufferPoolInfo \<times> disk" where
  "CLOCK_loop 0 bm page poolInfo d = (poolInfo, d)"
| "CLOCK_loop (Suc k) bm page poolInfo d =
     (let idx = clockPointer poolInfo
      in if accessCount (frames poolInfo ! idx) = 0
         then
           (if \<not> secondChance (frames poolInfo ! idx)
            then
              (case writeVictim bm idx poolInfo d of
                 (p1, d1) \<Rightarrow>
                   (p1\<lparr>frames := (frames p1)[idx := (frames p1 ! idx)
                           \<lparr>data := data page, pageNumber := pageNumber page,
                            dirtybit := dirtybit page, accessCount := accessCount page,
                            secondChance := False\<rparr>],
                       clockPointer := (clockPointer p1 + 1) mod bufferSize p1\<rparr>,
                    d1))
            else CLOCK_loop k bm page
                   (poolInfo\<lparr>frames := (frames poolInfo)[idx := (frames poolInfo ! idx)
                                 \<lparr>secondChance := False\<rparr>],
                             clockPointer :=
                               (clockPointer poolInfo + 1) mod bufferSize poolInfo\<rparr>)
                   d)
         else CLOCK_loop k bm page
                (poolInfo\<lparr>clockPointer :=
                   (clockPointer poolInfo + 1) mod bufferSize poolInfo\<rparr>)
                d)"

definition CLOCK :: "BM_BufferPool \<Rightarrow> FrameInfo \<Rightarrow> disk \<Rightarrow> BM_BufferPool \<times> disk" where
  "CLOCK bm page d =
     (case mgmtData bm of
        None \<Rightarrow> (bm, d)
      | Some poolInfo \<Rightarrow>
          (case CLOCK_loop (bufferSize poolInfo * 2) bm page poolInfo d of
             (p', d') \<Rightarrow> (bm\<lparr>mgmtData := Some p'\<rparr>, d')))"

text \<open>\<^verbatim>\<open>pinPage\<close>, first part (lines 313 to 330): the page is in frame \<open>i\<close>.\<close>

definition pinPage_hit ::
  "BM_BufferPool \<Rightarrow> BufferPoolInfo \<Rightarrow> int \<Rightarrow> nat \<Rightarrow> BM_BufferPool \<times> BM_PageHandle" where
  "pinPage_hit b poolInfo pnum i =
     (let f = frames poolInfo ! i;
          hits = recentHitCount poolInfo + 1;
          f1 = f\<lparr>accessCount := accessCount f + 1\<rparr>;
          f2 = (if strategy b = RS_CLOCK then f1\<lparr>secondChance := True\<rparr>
                else if strategy b = RS_LRU then f1\<lparr>recentHit := hits\<rparr>
                else f1)
      in (b\<lparr>mgmtData := Some (poolInfo\<lparr>frames := (frames poolInfo)[i := f2],
                                         recentHitCount := hits\<rparr>)\<rparr>,
          \<lparr>pageNum = pnum, hdata = data f2\<rparr>))"

text \<open>Second part (lines 332 to 368): frame \<open>i\<close> is the first empty frame.\<close>

definition pinPage_empty ::
  "BM_BufferPool \<Rightarrow> BufferPoolInfo \<Rightarrow> BM_PageHandle \<Rightarrow> int \<Rightarrow> nat \<Rightarrow> SM_FileHandle
     \<Rightarrow> disk \<Rightarrow> RC \<times> BM_BufferPool \<times> BM_PageHandle \<times> disk" where
  "pinPage_empty b poolInfo pg pnum i fh d =
     (case ensureCapacity (int32 (pnum + 1)) (Some fh) d of
        (rce, fh1, d1) \<Rightarrow>
          (case readBlock pnum fh1 mallocPage d1 of
             (rcr, fh2, buf) \<Rightarrow>
               if rcr \<noteq> RC_OK
               then
                 (RC_READ_NON_EXISTING_PAGE,
                  b\<lparr>mgmtData := Some (poolInfo\<lparr>frames :=
                      (frames poolInfo)[i := (frames poolInfo ! i)\<lparr>data := None\<rparr>]\<rparr>)\<rparr>,
                  pg, d1)
               else
                 (let hits = recentHitCount poolInfo + 1;
                      f1 = (frames poolInfo ! i)
                             \<lparr>data := buf, pageNumber := pnum, accessCount := 1,
                              dirtybit := False, index := 0\<rparr>;
                      f2 = (if strategy b = RS_CLOCK then f1\<lparr>secondChance := False\<rparr>
                            else if strategy b = RS_LRU then f1\<lparr>recentHit := hits\<rparr>
                            else f1)
                  in (RC_OK,
                      b\<lparr>mgmtData := Some (poolInfo\<lparr>frames := (frames poolInfo)[i := f2],
                          readCount := readCount poolInfo + 1,
                          recentHitCount := hits\<rparr>)\<rparr>,
                      \<lparr>pageNum = pnum, hdata = buf\<rparr>, d1))))"

text \<open>Third part (lines 370 to 428): no frame is empty. The fields of \<^verbatim>\<open>newFrame\<close>
  that the source leaves as \<^verbatim>\<open>malloc\<close> returned them (\<^verbatim>\<open>secondChance\<close> outside CLOCK,
  \<^verbatim>\<open>recentHit\<close> outside LRU) are never read by the strategy that runs; they are
  \<open>False\<close> and 0 here.\<close>

definition pinPage_replace ::
  "BM_BufferPool \<Rightarrow> BufferPoolInfo \<Rightarrow> BM_PageHandle \<Rightarrow> int \<Rightarrow> SM_FileHandle
     \<Rightarrow> disk \<Rightarrow> RC \<times> BM_BufferPool \<times> BM_PageHandle \<times> disk" where
  "pinPage_replace b poolInfo pg pnum fh d =
     (case ensureCapacity (int32 (pnum + 1)) (Some fh) d of
        (rce, fh1, d1) \<Rightarrow>
          (case readBlock pnum fh1 mallocPage d1 of
             (rcr, fh2, buf) \<Rightarrow>
               if rcr \<noteq> RC_OK then (RC_READ_NON_EXISTING_PAGE, b, pg, d1)
               else
                 (let hits = recentHitCount poolInfo + 1;
                      newFrame =
                        \<lparr>data = buf, pageNumber = pnum, dirtybit = False, accessCount = 1,
                         secondChance = False,
                         recentHit = (if strategy b = RS_LRU then hits else 0),
                         index = 0\<rparr>;
                      b1 = b\<lparr>mgmtData := Some (poolInfo\<lparr>readCount := readCount poolInfo + 1,
                                                          recentHitCount := hits\<rparr>)\<rparr>;
                      page' = \<lparr>pageNum = pnum, hdata = buf\<rparr>
                  in (case strategy b of
                        RS_FIFO \<Rightarrow>
                          (case FIFO b1 newFrame d1 of (b2, d2) \<Rightarrow> (RC_OK, b2, page', d2))
                      | RS_LRU \<Rightarrow>
                          (case LRU b1 newFrame d1 of (b2, d2) \<Rightarrow> (RC_OK, b2, page', d2))
                      | RS_CLOCK \<Rightarrow>
                          (case CLOCK b1 newFrame d1 of (b2, d2) \<Rightarrow> (RC_OK, b2, page', d2))
                      | RS_OTHER \<Rightarrow> (RC_ERROR, b1, page', d1)))))"

definition pinPage ::
  "BM_BufferPool option \<Rightarrow> BM_PageHandle option \<Rightarrow> int \<Rightarrow> disk
     \<Rightarrow> RC \<times> BM_BufferPool option \<times> BM_PageHandle option \<times> disk" where
  "pinPage bm page pnum d =
     (case bm of
        None \<Rightarrow> (RC_BUFF_POOL_NOT_FOUND, None, page, d)
      | Some b \<Rightarrow>
          (case page of
             None \<Rightarrow> (RC_ERROR, Some b, None, d)
           | Some pg \<Rightarrow>
               (case mgmtData b of
                  None \<Rightarrow> (RC_ERROR, Some b, Some pg, d)
                | Some poolInfo \<Rightarrow>
                    (case openPageFile (pageFile b) fhLocal d of
                       (rc, fh) \<Rightarrow>
                         if rc \<noteq> RC_OK then (RC_FILE_NOT_FOUND, Some b, Some pg, d)
                         else
                           (case findFrame pnum (frames poolInfo) of
                              Some i \<Rightarrow>
                                (case pinPage_hit b poolInfo pnum i of
                                   (b', pg') \<Rightarrow> (RC_OK, Some b', Some pg', d))
                            | None \<Rightarrow>
                                (case findFrame NO_PAGE (frames poolInfo) of
                                   Some i \<Rightarrow>
                                     (case pinPage_empty b poolInfo pg pnum i fh d of
                                        (r, b', pg', d') \<Rightarrow> (r, Some b', Some pg', d'))
                                 | None \<Rightarrow>
                                     (case pinPage_replace b poolInfo pg pnum fh d of
                                        (r, b', pg', d') \<Rightarrow> (r, Some b', Some pg', d'))))))))"

text \<open>The statistics functions. They return \<^verbatim>\<open>NULL\<close> (here \<open>None\<close>) or 0 for a pool
  that is absent or shut down.\<close>

definition getFrameContents :: "BM_BufferPool option \<Rightarrow> int list option" where
  "getFrameContents bm =
     (case bm of
        None \<Rightarrow> None
      | Some b \<Rightarrow>
          (case mgmtData b of
             None \<Rightarrow> None
           | Some poolInfo \<Rightarrow>
               Some (map (\<lambda>f. if pageNumber f = NO_PAGE then NO_PAGE else pageNumber f)
                         (frames poolInfo))))"

definition getDirtyFlags :: "BM_BufferPool option \<Rightarrow> bool list option" where
  "getDirtyFlags bm =
     (case bm of
        None \<Rightarrow> None
      | Some b \<Rightarrow>
          (case mgmtData b of
             None \<Rightarrow> None
           | Some poolInfo \<Rightarrow> Some (map dirtybit (frames poolInfo))))"

definition getFixCounts :: "BM_BufferPool option \<Rightarrow> int list option" where
  "getFixCounts bm =
     (case bm of
        None \<Rightarrow> None
      | Some b \<Rightarrow>
          (case mgmtData b of
             None \<Rightarrow> None
           | Some poolInfo \<Rightarrow>
               Some (map (\<lambda>f. if accessCount f > 0 then accessCount f else 0)
                         (frames poolInfo))))"

definition getNumReadIO :: "BM_BufferPool option \<Rightarrow> int" where
  "getNumReadIO bm =
     (case bm of
        None \<Rightarrow> 0
      | Some b \<Rightarrow> (case mgmtData b of None \<Rightarrow> 0 | Some poolInfo \<Rightarrow> readCount poolInfo))"

definition getNumWriteIO :: "BM_BufferPool option \<Rightarrow> int" where
  "getNumWriteIO bm =
     (case bm of
        None \<Rightarrow> 0
      | Some b \<Rightarrow> (case mgmtData b of None \<Rightarrow> 0 | Some poolInfo \<Rightarrow> writeCount poolInfo))"


section \<open>Notions used to state the properties\<close>

text \<open>The frames of a pool; none for a pool that is absent or shut down.\<close>

definition poolFrames :: "BM_BufferPool option \<Rightarrow> FrameInfo list" where
  "poolFrames bm =
     (case bm of
        None \<Rightarrow> []
      | Some b \<Rightarrow> (case mgmtData b of None \<Rightarrow> [] | Some poolInfo \<Rightarrow> frames poolInfo))"

text \<open>The frames that \<^verbatim>\<open>forceFlushPool\<close> is to write, dirty with no pin, and what such
  a frame is afterwards.\<close>

definition flushable :: "FrameInfo \<Rightarrow> bool" where
  "flushable f = (dirtybit f \<and> accessCount f = 0)"

definition flushed :: "FrameInfo \<Rightarrow> FrameInfo" where
  "flushed f = (if flushable f then f\<lparr>dirtybit := False\<rparr> else f)"

text \<open>One \<^verbatim>\<open>writeBlock\<close> for each frame of a list, in order, through one file handle:
  the return codes, the handle and the disk after the last write.\<close>

fun writeFrames ::
  "FrameInfo list \<Rightarrow> SM_FileHandle option \<Rightarrow> disk
     \<Rightarrow> RC list \<times> SM_FileHandle option \<times> disk" where
  "writeFrames [] fh d = ([], fh, d)"
| "writeFrames (f # fs) fh d =
     (case writeBlock (pageNumber f) fh (data f) d of
        (rc, fh', d') \<Rightarrow>
          (case writeFrames fs fh' d' of (rcs, fh'', d'') \<Rightarrow> (rc # rcs, fh'', d'')))"

text \<open>A file handle describes its file: the file exists and \<^verbatim>\<open>totalNumPages\<close> is the
  page count of its current size.\<close>

definition inSync :: "SM_FileHandle \<Rightarrow> disk \<Rightarrow> bool" where
  "inSync fh d =
     (case d (fileName fh) of
        None \<Rightarrow> False
      | Some bytes \<Rightarrow> totalNumPages fh = pagesOfSize (length bytes))"

text \<open>Concrete states for the examples: a frame holding page \<open>p\<close> with a zero-filled
  buffer, a pool over the file \<^verbatim>\<open>db\<close> with given frames, and a disk whose file
  \<^verbatim>\<open>db\<close> has \<open>k\<close> zero-filled pages.\<close>

definition exFrame :: "int \<Rightarrow> int \<Rightarrow> bool \<Rightarrow> FrameInfo" where
  "exFrame p pins dirty =
     \<lparr>data = Some (replicate PAGE_SIZE 0), pageNumber = p, dirtybit = dirty,
      accessCount = pins, secondChance = False, recentHit = 0, index = 0\<rparr>"

definition exInfo :: "FrameInfo list \<Rightarrow> BufferPoolInfo" where
  "exInfo fs =
     \<lparr>frames = fs, readCount = 0, writeCount = 0, recentHitCount = 0,
      frameIndex = 0, clockPointer = 0\<rparr>"

definition exPool :: "ReplacementStrategy \<Rightarrow> FrameInfo list \<Rightarrow> BM_BufferPool" where
  "exPool strat fs =
     \<lparr>pageFile = ''db'', numPages = int (length fs), strategy = strat,
      mgmtData = Some (exInfo fs)\<rparr>"

definition exDisk :: "nat \<Rightarrow> disk" where
  "exDisk k = Map.empty(''db'' \<mapsto> replicate (k * PAGE_SIZE) 0)"

definition exPage :: "int \<Rightarrow> BM_PageHandle" where
  "exPage p = \<lparr>pageNum = p, hdata = None\<rparr>"

text \<open>The bytes of a file after \<^verbatim>\<open>ensureCapacity\<close> asked for \<open>n\<close> pages through a handle
  that describes the file: zero-filled pages are appended up to \<open>n\<close> pages.\<close>

definition grown :: "int \<Rightarrow> byte list \<Rightarrow> byte list" where
  "grown n bytes =
     bytes @ replicate
       (nat (max (pagesOfSize (length bytes)) n - pagesOfSize (length bytes)) * PAGE_SIZE) 0"

text \<open>The handle that \<^verbatim>\<open>openPageFile\<close> fills for a file with the given bytes.\<close>

definition openedHandle :: "string \<Rightarrow> byte list \<Rightarrow> SM_FileHandle" where
  "openedHandle fname bytes =
     \<lparr>fileName = fname, curPagePos = 0, totalNumPages = pagesOfSize (length bytes)\<rparr>"

text \<open>Page \<open>p\<close> lies within the bytes of a file, whole.\<close>

definition pageWithin :: "int \<Rightarrow> byte list \<Rightarrow> bool" where
  "pageWithin p bytes = (0 \<le> p \<and> (nat p + 1) * PAGE_SIZE \<le> length bytes)"

text \<open>Two frames agree on what a client and the disk can see of them: buffer, page
  number, dirty flag and pin count. The bookkeeping of LRU and CLOCK is left out.\<close>

definition sameCore :: "FrameInfo \<Rightarrow> FrameInfo \<Rightarrow> bool" where
  "sameCore f g =
     (data f = data g \<and> pageNumber f = pageNumber g \<and> dirtybit f = dirtybit g
      \<and> accessCount f = accessCount g)"

text \<open>What the eviction of frame \<open>f\<close> does to \<^verbatim>\<open>writeCount\<close> and to the disk: the
  block of the three strategies, as a function of the victim.\<close>

definition victimWrite :: "string \<Rightarrow> FrameInfo \<Rightarrow> int \<Rightarrow> disk \<Rightarrow> int \<times> disk" where
  "victimWrite fname f wc d =
     (if dirtybit f
      then
        (case openPageFile fname fhLocal d of
           (rc, fh) \<Rightarrow>
             if rc = RC_OK
             then (wc + 1, snd (snd (writeBlock (pageNumber f) (Some fh) (data f) d)))
             else (wc, d))
      else (wc, d))"

text \<open>What a replacement strategy may do with the new frame \<open>page\<close>: either no frame is
  taken, and frames, \<^verbatim>\<open>writeCount\<close> and disk stay; or one frame \<open>idx\<close> with no pin is
  the victim, it is written as \<open>victimWrite\<close> says and then holds the new page, and the
  other frames stay.\<close>

definition strategyOutcome ::
  "string \<Rightarrow> FrameInfo \<Rightarrow> FrameInfo list \<Rightarrow> int \<Rightarrow> disk
     \<Rightarrow> FrameInfo list \<Rightarrow> int \<Rightarrow> disk \<Rightarrow> bool" where
  "strategyOutcome fname page fs wc d fs' wc' d' =
     (length fs' = length fs
      \<and> ((\<forall>j<length fs. sameCore (fs' ! j) (fs ! j)) \<and> wc' = wc \<and> d' = d
         \<or> (\<exists>idx<length fs.
               accessCount (fs ! idx) = 0
               \<and> sameCore (fs' ! idx) page
               \<and> (\<forall>j<length fs. j \<noteq> idx \<longrightarrow> sameCore (fs' ! j) (fs ! j))
               \<and> (wc', d') = victimWrite fname (fs ! idx) wc d)))"

text \<open>A clean frame that holds page \<open>p\<close> in buffer \<open>buf\<close> with \<open>pins\<close> pins, as FIFO
  leaves it.\<close>

definition cleanFrame :: "byte list \<Rightarrow> int \<Rightarrow> int \<Rightarrow> FrameInfo" where
  "cleanFrame buf p pins =
     \<lparr>data = Some buf, pageNumber = p, dirtybit = False, accessCount = pins,
      secondChance = False, recentHit = 0, index = 0\<rparr>"

text \<open>The frame that \<^verbatim>\<open>pinPage\<close> builds for a page it has just read.\<close>

definition loadedFrame :: "SM_PageHandle \<Rightarrow> int \<Rightarrow> FrameInfo" where
  "loadedFrame buf p =
     \<lparr>data = buf, pageNumber = p, dirtybit = False, accessCount = 1,
      secondChance = False, recentHit = 0, index = 0\<rparr>"

text \<open>The invariant of a pool: the frame array is not empty, and the FIFO cursor and
  the CLOCK hand are indices of it.\<close>

definition poolInv :: "BM_BufferPool \<Rightarrow> bool" where
  "poolInv b =
     (case mgmtData b of
        None \<Rightarrow> True
      | Some poolInfo \<Rightarrow>
          frames poolInfo \<noteq> []
          \<and> frameIndex poolInfo < length (frames poolInfo)
          \<and> clockPointer poolInfo < length (frames poolInfo))"

text \<open>The states a client can bring a pool and its disk to: \<^verbatim>\<open>initBufferPool\<close> on any
  disk, then any operations of the buffer manager with any arguments, and writes of
  \<^verbatim>\<open>PAGE_SIZE\<close> bytes into the buffer of a frame (through the pointer that \<^verbatim>\<open>pinPage\<close>
  hands out). Only the buffer manager touches the disk.\<close>

inductive reachable :: "BM_BufferPool \<Rightarrow> disk \<Rightarrow> bool" where
  r_init: "initBufferPool (Some b0) (Some fname) n strat = (RC_OK, Some b) \<Longrightarrow> reachable b d"
| r_pin: "reachable b d \<Longrightarrow> pinPage (Some b) (Some pg) pnum d = (rc, Some b', pg', d')
            \<Longrightarrow> reachable b' d'"
| r_unpin: "reachable b d \<Longrightarrow> unpinPage (Some b) (Some pg) d = (rc, Some b', d')
            \<Longrightarrow> reachable b' d'"
| r_dirty: "reachable b d \<Longrightarrow> markDirty (Some b) (Some pg) d = (rc, Some b', d')
            \<Longrightarrow> reachable b' d'"
| r_force: "reachable b d \<Longrightarrow> forcePage (Some b) (Some pg) d = (rc, Some b', d')
            \<Longrightarrow> reachable b' d'"
| r_flush: "reachable b d \<Longrightarrow> forceFlushPool (Some b) d = (rc, Some b', d')
            \<Longrightarrow> reachable b' d'"
| r_shutdown: "reachable b d \<Longrightarrow> shutdownBufferPool (Some b) d = (rc, Some b', d')
            \<Longrightarrow> reachable b' d'"
| r_write: "reachable b d \<Longrightarrow> mgmtData b = Some poolInfo \<Longrightarrow> i < length (frames poolInfo)
            \<Longrightarrow> data (frames poolInfo ! i) \<noteq> None \<Longrightarrow> length buf = PAGE_SIZE
            \<Longrightarrow> reachable
                  (b\<lparr>mgmtData := Some (poolInfo\<lparr>frames :=
                       (frames poolInfo)[i := (frames poolInfo ! i)\<lparr>data := Some buf\<rparr>]\<rparr>)\<rparr>)
                  d"

text \<open>The load that both miss paths of \<^verbatim>\<open>pinPage\<close> perform on the handle that
  \<^verbatim>\<open>pinPage\<close> opened: \<^verbatim>\<open>ensureCapacity\<close> for \<open>pnum + 1\<close> pages, whose result the source
  ignores, then \<^verbatim>\<open>readBlock\<close> into a fresh buffer. The result is the code of the read,
  the buffer and the disk.\<close>

definition loadPage :: "string \<Rightarrow> byte list \<Rightarrow> int \<Rightarrow> disk \<Rightarrow> RC \<times> SM_PageHandle \<times> disk" where
  "loadPage fname bytes pnum d =
     (case ensureCapacity (int32 (pnum + 1)) (Some (openedHandle fname bytes)) d of
        (rce, fh1, d1) \<Rightarrow>
          (case readBlock pnum fh1 mallocPage d1 of (rcr, fh2, buf) \<Rightarrow> (rcr, buf, d1)))"

text \<open>What \<^verbatim>\<open>pinPage\<close> does, case by case, for a pool with management data
  \<open>poolInfo\<close>: the page file is missing; the page is in frame \<open>i\<close>; it is not and
  frame \<open>i\<close> is the first empty one; no frame is empty. In the last two cases the page
  is loaded as \<open>loadPage\<close> says, and a failed read ends the call.\<close>

definition pinOutcome ::
  "BM_BufferPool \<Rightarrow> BufferPoolInfo \<Rightarrow> int \<Rightarrow> disk \<Rightarrow> RC \<Rightarrow> BufferPoolInfo \<Rightarrow> disk \<Rightarrow> bool" where
  "pinOutcome b poolInfo pnum d rc p' d' =
     (case d (pageFile b) of
        None \<Rightarrow> rc = RC_FILE_NOT_FOUND \<and> p' = poolInfo \<and> d' = d
      | Some bytes \<Rightarrow>
          (case findFrame pnum (frames poolInfo) of
             Some i \<Rightarrow>
               rc = RC_OK \<and> d' = d
               \<and> readCount p' = readCount poolInfo \<and> writeCount p' = writeCount poolInfo
               \<and> (\<forall>j<length (frames poolInfo).
                     data (frames p' ! j) = data (frames poolInfo ! j)
                     \<and> pageNumber (frames p' ! j) = pageNumber (frames poolInfo ! j)
                     \<and> dirtybit (frames p' ! j) = dirtybit (frames poolInfo ! j)
                     \<and> accessCount (frames p' ! j) =
                         (if j = i then accessCount (frames poolInfo ! j) + 1
                          else accessCount (frames poolInfo ! j)))
           | None \<Rightarrow>
               (case loadPage (pageFile b) bytes pnum d of
                  (rcr, buf, d1) \<Rightarrow>
                    (case findFrame NO_PAGE (frames poolInfo) of
                       Some i \<Rightarrow>
                         d' = d1
                         \<and> writeCount p' = writeCount poolInfo
                         \<and> (\<forall>j<length (frames poolInfo). j \<noteq> i \<longrightarrow>
                               frames p' ! j = frames poolInfo ! j)
                         \<and> (if rcr = RC_OK
                             then rc = RC_OK
                                  \<and> readCount p' = readCount poolInfo + 1
                                  \<and> sameCore (frames p' ! i) (loadedFrame buf pnum)
                             else rc = RC_READ_NON_EXISTING_PAGE
                                  \<and> readCount p' = readCount poolInfo
                                  \<and> frames p' ! i = (frames poolInfo ! i)\<lparr>data := None\<rparr>)
                     | None \<Rightarrow>
                         (if rcr = RC_OK
                          then rc = (if strategy b = RS_OTHER then RC_ERROR else RC_OK)
                               \<and> readCount p' = readCount poolInfo + 1
                               \<and> strategyOutcome (pageFile b) (loadedFrame buf pnum)
                                    (frames poolInfo) (writeCount poolInfo) d1
                                    (frames p') (writeCount p') d'
                          else rc = RC_READ_NON_EXISTING_PAGE \<and> p' = poolInfo
                               \<and> d' = d1)))))"

text \<open>A pool over the file \<^verbatim>\<open>db\<close> with given frames and given counters
  \<^verbatim>\<open>readCount\<close> and \<^verbatim>\<open>recentHitCount\<close>, as operations on a fresh pool leave it.\<close>

definition exPoolAt ::
  "ReplacementStrategy \<Rightarrow> FrameInfo list \<Rightarrow> int \<Rightarrow> int \<Rightarrow> nat \<Rightarrow> BM_BufferPool" where
  "exPoolAt strat fs reads hits cursor =
     \<lparr>pageFile = ''db'', numPages = int (length fs), strategy = strat,
      mgmtData = Some \<lparr>frames = fs, readCount = reads, writeCount = 0,
                        recentHitCount = hits, frameIndex = cursor, clockPointer = 0\<rparr>\<rparr>"

text \<open>The first scenario of the specification: a FIFO pool of three frames over the
  file \<open>fname\<close>; pin pages 1, 2 and 3, unpin each through the handle its pin returned,
  pin page 4. The result is the list of the eight return codes, the pool and the disk.\<close>

definition fifoScenario ::
  "BM_BufferPool \<Rightarrow> string \<Rightarrow> BM_PageHandle \<Rightarrow> disk
     \<Rightarrow> RC list \<times> BM_BufferPool option \<times> disk" where
  "fifoScenario b0 fname pg d =
     (case initBufferPool (Some b0) (Some fname) 3 RS_FIFO of
        (rc0, bm0) \<Rightarrow>
     (case pinPage bm0 (Some pg) 1 d of
        (rc1, bm1, h1, d1) \<Rightarrow>
     (case pinPage bm1 (Some pg) 2 d1 of
        (rc2, bm2, h2, d2) \<Rightarrow>
     (case pinPage bm2 (Some pg) 3 d2 of
        (rc3, bm3, h3, d3) \<Rightarrow>
     (case unpinPage bm3 h1 d3 of
        (rc4, bm4, d4) \<Rightarrow>
     (case unpinPage bm4 h2 d4 of
        (rc5, bm5, d5) \<Rightarrow>
     (case unpinPage bm5 h3 d5 of
        (rc6, bm6, d6) \<Rightarrow>
     (case pinPage bm6 (Some pg) 4 d6 of
        (rc7, bm7, h4, d7) \<Rightarrow>
          ([rc0, rc1, rc2, rc3, rc4, rc5, rc6, rc7], bm7, d7)))))))))"

text \<open>A client that writes \<open>buf\<close> through the \<^verbatim>\<open>data\<close> pointer of its page handle: the
  bytes land in the buffer of the frame that holds the page of the handle.\<close>

definition clientWrite ::
  "BM_BufferPool option \<Rightarrow> BM_PageHandle option \<Rightarrow> byte list \<Rightarrow> BM_BufferPool option" where
  "clientWrite bm page buf =
     (case bm of
        None \<Rightarrow> None
      | Some b \<Rightarrow>
          (case page of
             None \<Rightarrow> Some b
           | Some pg \<Rightarrow>
               (case mgmtData b of
                  None \<Rightarrow> Some b
                | Some poolInfo \<Rightarrow>
                    (case findFrame (pageNum pg) (frames poolInfo) of
                       None \<Rightarrow> Some b
                     | Some i \<Rightarrow>
                         Some (b\<lparr>mgmtData := Some (poolInfo\<lparr>frames :=
                            (frames poolInfo)[i := (frames poolInfo ! i)
                               \<lparr>data := Some buf\<rparr>]\<rparr>)\<rparr>)))))"

text \<open>A page file that is created anew under an open pool: \<^verbatim>\<open>createPageFile\<close> for the
  file \<^verbatim>\<open>db\<close> (in a directory where it can be created), a FIFO pool of one frame over
  it, pin page 5, write \<open>buf\<close> into its
  buffer, mark it dirty, unpin it, \<^verbatim>\<open>createPageFile\<close> for \<^verbatim>\<open>db\<close> again, pin page 0.
  The result is the list of the seven return codes, the pool and the disk.\<close>

definition recreateScenario ::
  "BM_BufferPool \<Rightarrow> BM_PageHandle \<Rightarrow> byte list \<Rightarrow> disk
     \<Rightarrow> RC list \<times> BM_BufferPool option \<times> disk" where
  "recreateScenario b0 pg buf d =
     (case createPageFile ''db'' True d of
        (rc0, d0) \<Rightarrow>
     (case initBufferPool (Some b0) (Some ''db'') 1 RS_FIFO of
        (rc1, bm1) \<Rightarrow>
     (case pinPage bm1 (Some pg) 5 d0 of
        (rc2, bm2, h, d2) \<Rightarrow>
     (case markDirty (clientWrite bm2 h buf) h d2 of
        (rc3, bm3, d3) \<Rightarrow>
     (case unpinPage bm3 h d3 of
        (rc4, bm4, d4) \<Rightarrow>
     (case createPageFile ''db'' True d4 of
        (rc5, d5) \<Rightarrow>
     (case pinPage bm4 (Some pg) 0 d5 of
        (rc6, bm6, h6, d6) \<Rightarrow>
          ([rc0, rc1, rc2, rc3, rc4, rc5, rc6], bm6, d6))))))))"

section \<open>Properties of the storage manager\<close>

lemma PAGE_SIZE_pos: "0 < PAGE_SIZE" by (simp add: PAGE_SIZE_def)

lemma length_fwriteAt:
  "length (fwriteAt off xs bytes) = max (length bytes) (off + length xs)"
  by (auto simp: fwriteAt_def)

lemma freadAt_fwriteAt:
  "freadAt off (length xs) (fwriteAt off xs bytes) = xs"
  by (auto simp: fwriteAt_def freadAt_def)

lemma fwriteAt_idem: "fwriteAt off xs (fwriteAt off xs bytes) = fwriteAt off xs bytes"
  by (simp add: fwriteAt_def)

lemma freadAt_fwriteAt_after:
  "off' + length xs \<le> off \<Longrightarrow> freadAt off n (fwriteAt off' xs bytes) = freadAt off n bytes"
proof -
  assume a: "off' + length xs \<le> off"
  have "min (length bytes) off' + (off' - length bytes) = off'" by (simp add: min_def)
  then show ?thesis using a by (simp add: fwriteAt_def freadAt_def)
qed

lemma freadAt_fwriteAt_before:
  "off + n \<le> off' \<Longrightarrow> off + n \<le> length bytes \<Longrightarrow>
     freadAt off n (fwriteAt off' xs bytes) = freadAt off n bytes"
  by (simp add: fwriteAt_def freadAt_def drop_take min_def)

lemma int32_id: "- (2 ^ 31) \<le> x \<Longrightarrow> x < 2 ^ 31 \<Longrightarrow> int32 x = x"
  by (simp add: int32_def)

lemma blockOffset_page:
  "0 \<le> p \<Longrightarrow> p * int PAGE_SIZE < 2 ^ 31 \<Longrightarrow> blockOffset p = p * int PAGE_SIZE"
proof -
  assume a: "0 \<le> p" "p * int PAGE_SIZE < 2 ^ 31"
  have "- (2 ^ 31) \<le> (0 :: int)" by simp
  also have "0 \<le> p * int PAGE_SIZE" using a(1) by simp
  finally have "- (2 ^ 31) \<le> p * int PAGE_SIZE" .
  then show ?thesis using a(2) unfolding blockOffset_def by (rule int32_id)
qed

lemma blockOffset_nonneg:
  "0 \<le> p \<Longrightarrow> p * int PAGE_SIZE < 2 ^ 31 \<Longrightarrow> \<not> blockOffset p < 0"
proof -
  assume a: "0 \<le> p" "p * int PAGE_SIZE < 2 ^ 31"
  have "0 \<le> p * int PAGE_SIZE" using a(1) by simp
  then show ?thesis using blockOffset_page [OF a] by simp
qed

lemma nat_blockOffset:
  "0 \<le> p \<Longrightarrow> p * int PAGE_SIZE < 2 ^ 31 \<Longrightarrow> nat (blockOffset p) = nat p * PAGE_SIZE"
  by (simp add: blockOffset_page nat_mult_distrib)

lemma int32_succ_page:
  "0 \<le> p \<Longrightarrow> p * int PAGE_SIZE < 2 ^ 31 \<Longrightarrow> int32 (p + 1) = p + 1"
proof -
  assume a: "0 \<le> p" "p * int PAGE_SIZE < 2 ^ 31"
  then have "p + 1 < 2 ^ 31" by (simp add: PAGE_SIZE_def)
  moreover have "- (2 ^ 31) \<le> p + 1" using a(1) by simp
  ultimately show ?thesis by (simp add: int32_id)
qed

lemma blockOffset_dvd: "int PAGE_SIZE dvd blockOffset p"
proof -
  have "(4096 :: int) dvd (p * 4096 + 2 ^ 31) mod 2 ^ 32"
    by (rule dvd_mod) simp_all
  then show ?thesis by (simp add: blockOffset_def int32_def PAGE_SIZE_def)
qed

lemma ceil_div_less:
  fixes q :: nat
  assumes "0 < q"
  shows "p < (if n mod q = 0 then n div q else n div q + 1) \<longleftrightarrow> p * q < n"
proof (cases "n mod q = 0")
  case True
  then have "q dvd n" by (simp add: mod_eq_0_iff_dvd)
  then have "(n div q) * q = n" by simp
  then show ?thesis using assms True
    by (metis mult_less_cancel2)
next
  case False
  have n: "n = (n div q) * q + n mod q" by simp
  have m: "0 < n mod q" "n mod q < q" using False assms by auto
  show ?thesis
  proof
    assume "p < (if n mod q = 0 then n div q else n div q + 1)"
    then have "p \<le> n div q" using False by simp
    then have "p * q \<le> (n div q) * q" by simp
    then show "p * q < n" using n m by linarith
  next
    assume a: "p * q < n"
    have "p \<le> n div q"
      using a assms by (simp add: less_eq_div_iff_mult_less_eq)
    then show "p < (if n mod q = 0 then n div q else n div q + 1)" using False by simp
  qed
qed

lemma pagesOfSize_less: "int p < pagesOfSize n \<longleftrightarrow> p * PAGE_SIZE < n"
  using ceil_div_less [OF PAGE_SIZE_pos, of p n]
  by (auto simp: pagesOfSize_def split: if_splits)

lemma pagesOfSize_nonneg: "0 \<le> pagesOfSize n"
  by (simp add: pagesOfSize_def)

lemma pagesOfSize_le: "int p \<le> pagesOfSize n \<longleftrightarrow> p * PAGE_SIZE < n + PAGE_SIZE"
proof (cases p)
  case 0
  then show ?thesis using PAGE_SIZE_pos pagesOfSize_nonneg by simp
next
  case (Suc k)
  have "int (Suc k) \<le> pagesOfSize n \<longleftrightarrow> int k < pagesOfSize n" by auto
  also have "\<dots> \<longleftrightarrow> k * PAGE_SIZE < n" by (rule pagesOfSize_less)
  finally show ?thesis using Suc by simp
qed

lemma pagesOfSize_add: "pagesOfSize (n + PAGE_SIZE) = pagesOfSize n + 1"
  using PAGE_SIZE_pos by (simp add: pagesOfSize_def div_add_self2)

lemma pagesOfSize_mult: "pagesOfSize (k * PAGE_SIZE) = int k"
  using PAGE_SIZE_pos by (simp add: pagesOfSize_def)

lemma pagesOfSize_mono: "m \<le> n \<Longrightarrow> pagesOfSize m \<le> pagesOfSize n"
proof -
  assume mn: "m \<le> n"
  obtain k where k: "pagesOfSize m = int k"
    using pagesOfSize_nonneg [of m] by (metis nonneg_int_cases)
  show ?thesis
  proof (cases k)
    case 0 then show ?thesis using k pagesOfSize_nonneg by simp
  next
    case (Suc j)
    then have "int j < pagesOfSize m" using k by simp
    then have "j * PAGE_SIZE < m" by (simp add: pagesOfSize_less)
    then have "j * PAGE_SIZE < n" using mn by simp
    then have "int j < pagesOfSize n" by (simp add: pagesOfSize_less)
    then show ?thesis using k Suc by simp
  qed
qed


lemma sync_length_le:
  assumes "totalNumPages fh = pagesOfSize (length bytes)"
  shows "0 \<le> totalNumPages fh \<and> length bytes \<le> nat (totalNumPages fh) * PAGE_SIZE"
proof -
  obtain T where T: "totalNumPages fh = int T"
    using assms pagesOfSize_nonneg [of "length bytes"] by (metis nonneg_int_cases)
  have "length bytes \<le> T * PAGE_SIZE"
  proof (rule ccontr)
    assume "\<not> length bytes \<le> T * PAGE_SIZE"
    then have "T * PAGE_SIZE < length bytes" by simp
    then have "int T < pagesOfSize (length bytes)" by (simp add: pagesOfSize_less)
    then show False using T assms by simp
  qed
  then show ?thesis by (simp add: T)
qed

text \<open>
  Claim C8. The claim holds for the files whose size the \<^verbatim>\<open>int\<close> product
  \<^verbatim>\<open>pageNum * PAGE_SIZE\<close> can express and fails from there on. For a file handle that
  describes its file, with \<open>T\<close> pages and \<open>T * PAGE_SIZE\<close> below \<open>2\<^sup>3\<^sup>1\<close>,
  \<^verbatim>\<open>writeBlock\<close> accepts the page index \<open>T\<close>, one past the end: it returns \<^verbatim>\<open>RC_OK\<close>,
  the file grows to \<open>T + 1\<close> pages, the last of them the buffer, and the handle counts
  them. For every \<open>T\<close>, \<^verbatim>\<open>readBlock\<close> returns \<^verbatim>\<open>RC_READ_NON_EXISTING_PAGE\<close> for every
  index below 0 or from \<open>T\<close> on, the index \<open>T\<close> among them.
\<close>

theorem writeBlock_extends_readBlock_rejects:
  assumes fl: "d (fileName fh) = Some bytes"
    and sync: "totalNumPages fh = pagesOfSize (length bytes)"
    and buf: "length buf = PAGE_SIZE"
  shows "(totalNumPages fh * int PAGE_SIZE < 2 ^ 31 \<longrightarrow>
           writeBlock (totalNumPages fh) (Some fh) (Some buf) d =
             (RC_OK,
              Some (fh\<lparr>curPagePos := totalNumPages fh, totalNumPages := totalNumPages fh + 1\<rparr>),
              d(fileName fh \<mapsto>
                  bytes @ replicate (nat (totalNumPages fh) * PAGE_SIZE - length bytes) 0 @ buf)))
         \<and> length bytes < nat (totalNumPages fh) * PAGE_SIZE + PAGE_SIZE
         \<and> (\<forall>n rbuf. n < 0 \<or> totalNumPages fh \<le> n \<longrightarrow>
               readBlock n (Some fh) (Some rbuf) d =
                 (RC_READ_NON_EXISTING_PAGE, Some fh, Some rbuf))"
proof -
  let ?T = "nat (totalNumPages fh)"
  have T: "0 \<le> totalNumPages fh" and le: "length bytes \<le> ?T * PAGE_SIZE"
    using sync_length_le [OF sync] by simp_all
  have w: "fwriteAt (?T * PAGE_SIZE) buf bytes =
             bytes @ replicate (?T * PAGE_SIZE - length bytes) 0 @ buf"
    using le buf by (simp add: fwriteAt_def)
  have len: "length (bytes @ replicate (?T * PAGE_SIZE - length bytes) 0 @ buf)
               = (?T + 1) * PAGE_SIZE"
    using le buf by simp
  have tot: "pagesOfSize (length (bytes @ replicate (?T * PAGE_SIZE - length bytes) 0 @ buf))
               = totalNumPages fh + 1"
    unfolding len using pagesOfSize_mult [of "?T + 1"] T by simp
  have "totalNumPages fh * int PAGE_SIZE < 2 ^ 31 \<longrightarrow>
        writeBlock (totalNumPages fh) (Some fh) (Some buf) d =
           (RC_OK,
            Some (fh\<lparr>curPagePos := totalNumPages fh, totalNumPages := totalNumPages fh + 1\<rparr>),
            d(fileName fh \<mapsto>
                bytes @ replicate (?T * PAGE_SIZE - length bytes) 0 @ buf))"
  proof
    assume b: "totalNumPages fh * int PAGE_SIZE < 2 ^ 31"
    have off: "blockOffset (totalNumPages fh) = totalNumPages fh * int PAGE_SIZE"
      "nat (blockOffset (totalNumPages fh)) = ?T * PAGE_SIZE"
      by (rule blockOffset_page [OF T b], rule nat_blockOffset [OF T b])
    have nn: "\<not> blockOffset (totalNumPages fh) < 0" by (rule blockOffset_nonneg [OF T b])
    show "writeBlock (totalNumPages fh) (Some fh) (Some buf) d =
           (RC_OK,
            Some (fh\<lparr>curPagePos := totalNumPages fh, totalNumPages := totalNumPages fh + 1\<rparr>),
            d(fileName fh \<mapsto>
                bytes @ replicate (?T * PAGE_SIZE - length bytes) 0 @ buf))"
      using fl buf w tot T nn off(2) by (simp add: writeBlock_def Let_def)
  qed
  moreover have "length bytes < ?T * PAGE_SIZE + PAGE_SIZE"
    using le PAGE_SIZE_pos by simp
  moreover have "\<forall>n rbuf. n < 0 \<or> totalNumPages fh \<le> n \<longrightarrow>
               readBlock n (Some fh) (Some rbuf) d =
                 (RC_READ_NON_EXISTING_PAGE, Some fh, Some rbuf)"
    by (auto simp: readBlock_def)
  ultimately show ?thesis by simp
qed

theorem writeBlock_extends_readBlock_rejects_witness:
  "writeBlock 2 (Some \<lparr>fileName = ''db'', curPagePos = 0, totalNumPages = 2\<rparr>)
       (Some (replicate PAGE_SIZE 7)) (exDisk 2) =
     (RC_OK, Some \<lparr>fileName = ''db'', curPagePos = 2, totalNumPages = 3\<rparr>,
      (exDisk 2)(''db'' \<mapsto> replicate (2 * PAGE_SIZE) 0 @ replicate PAGE_SIZE 7))
   \<and> readBlock 2 (Some \<lparr>fileName = ''db'', curPagePos = 0, totalNumPages = 2\<rparr>)
       (Some (replicate PAGE_SIZE 7)) (exDisk 2) =
     (RC_READ_NON_EXISTING_PAGE,
      Some \<lparr>fileName = ''db'', curPagePos = 0, totalNumPages = 2\<rparr>,
      Some (replicate PAGE_SIZE 7))"
proof -
  have b: "2 * int PAGE_SIZE < 2 ^ 31" by (simp add: PAGE_SIZE_def)
  show ?thesis
    using writeBlock_extends_readBlock_rejects
      [of "exDisk 2" "\<lparr>fileName = ''db'', curPagePos = 0, totalNumPages = 2\<rparr>"
          "replicate (2 * PAGE_SIZE) 0" "replicate PAGE_SIZE 7"] b
    by (simp add: exDisk_def pagesOfSize_mult)
qed

text \<open>A page file of 524288 pages, 2 GiB, with a handle that describes it: the product
  for the index one past the end is \<open>2\<^sup>3\<^sup>1\<close> and wraps around to a negative offset,
  \<^verbatim>\<open>fseek\<close> fails, and \<^verbatim>\<open>writeBlock\<close> returns \<^verbatim>\<open>RC_WRITE_FAILED\<close> with the file as it
  was.\<close>

theorem writeBlock_fails_at_2GiB:
  "totalNumPages \<lparr>fileName = ''db'', curPagePos = 0, totalNumPages = 524288\<rparr>
     = pagesOfSize (length (replicate (524288 * PAGE_SIZE) (0 :: byte)))
   \<and> exDisk 524288 ''db'' = Some (replicate (524288 * PAGE_SIZE) 0)
   \<and> writeBlock 524288 (Some \<lparr>fileName = ''db'', curPagePos = 0, totalNumPages = 524288\<rparr>)
       (Some (replicate PAGE_SIZE 7)) (exDisk 524288) =
     (RC_WRITE_FAILED, Some \<lparr>fileName = ''db'', curPagePos = 0, totalNumPages = 524288\<rparr>,
      exDisk 524288)"
proof -
  have off: "blockOffset 524288 < 0"
    by (simp add: blockOffset_def int32_def PAGE_SIZE_def)
  have fl: "exDisk 524288 ''db'' = Some (replicate (524288 * PAGE_SIZE) 0)"
    by (simp add: exDisk_def)
  show ?thesis
    using off fl pagesOfSize_mult [of 524288] by (simp add: writeBlock_def)
qed

section \<open>Properties of the buffer manager: unpin, force and hit\<close>

lemma findFrame_Some:
  "findFrame p fs = Some i \<Longrightarrow>
     i < length fs \<and> pageNumber (fs ! i) = p \<and> (\<forall>j<i. pageNumber (fs ! j) \<noteq> p)"
proof (induction fs arbitrary: i)
  case Nil
  then show ?case by simp
next
  case (Cons f fs)
  show ?case
  proof (cases "pageNumber f = p")
    case True
    then show ?thesis using Cons.prems by simp
  next
    case False
    then obtain k where k: "findFrame p fs = Some k" "i = Suc k"
      using Cons.prems by auto
    from Cons.IH [OF k(1)] False k(2) show ?thesis
      by (auto simp: nth_Cons split: nat.splits)
  qed
qed

lemma findFrame_None: "findFrame p fs = None \<longleftrightarrow> p \<notin> pageNumber ` set fs"
  by (induction fs) auto

lemma findFrame_first:
  "i < length fs \<Longrightarrow> pageNumber (fs ! i) = p \<Longrightarrow> (\<forall>j<i. pageNumber (fs ! j) \<noteq> p)
     \<Longrightarrow> findFrame p fs = Some i"
proof -
  assume a: "i < length fs" "pageNumber (fs ! i) = p" "\<forall>j<i. pageNumber (fs ! j) \<noteq> p"
  then have "p \<in> pageNumber ` set fs" by (metis imageI nth_mem)
  then obtain k where k: "findFrame p fs = Some k"
    using findFrame_None [of p fs] by (cases "findFrame p fs") auto
  from findFrame_Some [OF k] a have "k = i"
    by (metis linorder_neqE_nat)
  then show ?thesis using k by simp
qed

lemma map_update_same:
  "i < length xs \<Longrightarrow> g y = g (xs ! i) \<Longrightarrow> map g (xs[i := y]) = map g xs"
proof -
  assume a: "i < length xs" "g y = g (xs ! i)"
  have "map g (xs[i := y]) = (map g xs)[i := (map g xs) ! i]"
    using a by (simp add: map_update)
  then show ?thesis by simp
qed

lemma unpinPage_result:
  assumes pool: "mgmtData b = Some poolInfo"
  shows "\<exists>fs'. unpinPage (Some b) (Some pg) d =
                 (RC_OK, Some (b\<lparr>mgmtData := Some (poolInfo\<lparr>frames := fs'\<rparr>)\<rparr>), d)
           \<and> length fs' = length (frames poolInfo)
           \<and> map dirtybit fs' = map dirtybit (frames poolInfo)
           \<and> map pageNumber fs' = map pageNumber (frames poolInfo)
           \<and> map data fs' = map data (frames poolInfo)
           \<and> (\<forall>j<length fs'.
                 accessCount (fs' ! j) =
                   (if pageNumber (frames poolInfo ! j) = pageNum pg
                       \<and> (\<forall>k<j. pageNumber (frames poolInfo ! k) \<noteq> pageNum pg)
                       \<and> 0 < accessCount (frames poolInfo ! j)
                    then accessCount (frames poolInfo ! j) - 1
                    else accessCount (frames poolInfo ! j)))
           \<and> (\<forall>j<length fs'. 0 \<le> accessCount (frames poolInfo ! j) \<longrightarrow> 0 \<le> accessCount (fs' ! j))
           \<and> (pageNum pg \<notin> pageNumber ` set (frames poolInfo) \<longrightarrow> fs' = frames poolInfo)"
proof (cases "findFrame (pageNum pg) (frames poolInfo)")
  case None
  then have nr: "pageNum pg \<notin> pageNumber ` set (frames poolInfo)"
    by (simp add: findFrame_None)
  have "unpinPage (Some b) (Some pg) d = (RC_OK, Some b, d)"
    using pool None by (simp add: unpinPage_def)
  moreover have "b\<lparr>mgmtData := Some (poolInfo\<lparr>frames := frames poolInfo\<rparr>)\<rparr> = b"
    using pool by simp
  moreover have "\<forall>j<length (frames poolInfo). pageNumber (frames poolInfo ! j) \<noteq> pageNum pg"
    using nr by (metis imageI nth_mem)
  ultimately show ?thesis
    by (intro exI [of _ "frames poolInfo"]) simp
next
  case (Some i)
  note ff = findFrame_Some [OF Some]
  let ?fs = "frames poolInfo"
  show ?thesis
  proof (cases "0 < accessCount (?fs ! i)")
    case False
    have "unpinPage (Some b) (Some pg) d = (RC_OK, Some b, d)"
      using pool Some False by (simp add: unpinPage_def)
    moreover have "b\<lparr>mgmtData := Some (poolInfo\<lparr>frames := ?fs\<rparr>)\<rparr> = b"
      using pool by simp
    moreover have "\<forall>j<length ?fs.
                 accessCount (?fs ! j) =
                   (if pageNumber (?fs ! j) = pageNum pg
                       \<and> (\<forall>k<j. pageNumber (?fs ! k) \<noteq> pageNum pg)
                       \<and> 0 < accessCount (?fs ! j)
                    then accessCount (?fs ! j) - 1
                    else accessCount (?fs ! j))"
    proof (intro allI impI)
      fix j assume jl: "j < length ?fs"
      have "\<not> (pageNumber (?fs ! j) = pageNum pg
                \<and> (\<forall>k<j. pageNumber (?fs ! k) \<noteq> pageNum pg)
                \<and> 0 < accessCount (?fs ! j))"
      proof
        assume c: "pageNumber (?fs ! j) = pageNum pg
                \<and> (\<forall>k<j. pageNumber (?fs ! k) \<noteq> pageNum pg)
                \<and> 0 < accessCount (?fs ! j)"
        then have "findFrame (pageNum pg) ?fs = Some j" using jl by (simp add: findFrame_first)
        then show False using Some False c by simp
      qed
      then show "accessCount (?fs ! j) =
                   (if pageNumber (?fs ! j) = pageNum pg
                       \<and> (\<forall>k<j. pageNumber (?fs ! k) \<noteq> pageNum pg)
                       \<and> 0 < accessCount (?fs ! j)
                    then accessCount (?fs ! j) - 1
                    else accessCount (?fs ! j))"
        by (simp only: if_False)
    qed
    moreover have "pageNum pg \<in> pageNumber ` set ?fs"
      using ff by (metis imageI nth_mem)
    ultimately show ?thesis
      by (intro exI [of _ "?fs"]) simp
  next
    case True
    let ?fs' = "?fs[i := (?fs ! i)\<lparr>accessCount := accessCount (?fs ! i) - 1\<rparr>]"
    have r: "unpinPage (Some b) (Some pg) d =
            (RC_OK, Some (b\<lparr>mgmtData := Some (poolInfo\<lparr>frames := ?fs'\<rparr>)\<rparr>), d)"
      using pool Some True by (simp add: unpinPage_def)
    have m: "map dirtybit ?fs' = map dirtybit ?fs" "map pageNumber ?fs' = map pageNumber ?fs"
      "map data ?fs' = map data ?fs"
      using ff by (simp_all add: map_update_same)
    have first: "\<And>j. j < length ?fs \<Longrightarrow>
        (pageNumber (?fs ! j) = pageNum pg \<and> (\<forall>k<j. pageNumber (?fs ! k) \<noteq> pageNum pg))
          \<longleftrightarrow> j = i"
      using ff Some findFrame_first by (metis option.inject)
    have ac: "\<forall>j<length ?fs'.
                 accessCount (?fs' ! j) =
                   (if pageNumber (?fs ! j) = pageNum pg
                       \<and> (\<forall>k<j. pageNumber (?fs ! k) \<noteq> pageNum pg)
                       \<and> 0 < accessCount (?fs ! j)
                    then accessCount (?fs ! j) - 1
                    else accessCount (?fs ! j))"
    proof (intro allI impI)
      fix j assume j: "j < length ?fs'"
      then have jl: "j < length ?fs" by simp
      show "accessCount (?fs' ! j) =
                   (if pageNumber (?fs ! j) = pageNum pg
                       \<and> (\<forall>k<j. pageNumber (?fs ! k) \<noteq> pageNum pg)
                       \<and> 0 < accessCount (?fs ! j)
                    then accessCount (?fs ! j) - 1
                    else accessCount (?fs ! j))"
      proof (cases "j = i")
        case True
        then show ?thesis using first [OF jl] jl \<open>0 < accessCount (?fs ! i)\<close> by simp
      next
        case False
        then show ?thesis using first [OF jl] jl by simp
      qed
    qed
    have nn: "\<forall>j<length ?fs'. 0 \<le> accessCount (?fs ! j) \<longrightarrow> 0 \<le> accessCount (?fs' ! j)"
    proof (intro allI impI)
      fix j assume "j < length ?fs'" and "0 \<le> accessCount (?fs ! j)"
      then show "0 \<le> accessCount (?fs' ! j)"
        using True by (cases "j = i") simp_all
    qed
    have res: "pageNum pg \<in> pageNumber ` set ?fs"
      using ff by (metis imageI nth_mem)
    show ?thesis
      using r m ac nn res by (intro exI [of _ "?fs'"]) simp
  qed
qed

text \<open>
  Claim C4. \<^verbatim>\<open>unpinPage\<close> returns \<^verbatim>\<open>RC_OK\<close> and leaves the disk, the page numbers, the
  buffers and the dirty flags as they were. The pin count of the first frame that holds
  the page goes down by one when it is positive and stays when it is not; every other
  pin count stays, a count that was not negative is not negative afterwards, and
  nothing changes when no frame holds the page.
\<close>

theorem unpinPage_saturating:
  assumes pool: "mgmtData b = Some poolInfo"
  shows "\<exists>fs'. unpinPage (Some b) (Some pg) d =
                 (RC_OK, Some (b\<lparr>mgmtData := Some (poolInfo\<lparr>frames := fs'\<rparr>)\<rparr>), d)
           \<and> length fs' = length (frames poolInfo)
           \<and> map dirtybit fs' = map dirtybit (frames poolInfo)
           \<and> map pageNumber fs' = map pageNumber (frames poolInfo)
           \<and> map data fs' = map data (frames poolInfo)
           \<and> (\<forall>j<length fs'.
                 accessCount (fs' ! j) =
                   (if pageNumber (frames poolInfo ! j) = pageNum pg
                       \<and> (\<forall>k<j. pageNumber (frames poolInfo ! k) \<noteq> pageNum pg)
                       \<and> 0 < accessCount (frames poolInfo ! j)
                    then accessCount (frames poolInfo ! j) - 1
                    else accessCount (frames poolInfo ! j)))
           \<and> (\<forall>j<length fs'. 0 \<le> accessCount (frames poolInfo ! j) \<longrightarrow> 0 \<le> accessCount (fs' ! j))
           \<and> (pageNum pg \<notin> pageNumber ` set (frames poolInfo) \<longrightarrow> fs' = frames poolInfo)"
  using unpinPage_result [OF pool] .

theorem unpinPage_saturating_witness:
  "mgmtData (exPool RS_FIFO [exFrame 5 2 True, exFrame 7 0 False])
     = Some (exInfo [exFrame 5 2 True, exFrame 7 0 False])
   \<and> unpinPage (Some (exPool RS_FIFO [exFrame 5 2 True, exFrame 7 0 False]))
        (Some (exPage 5)) (exDisk 1)
     = (RC_OK, Some (exPool RS_FIFO [exFrame 5 1 True, exFrame 7 0 False]), exDisk 1)"
  using unpinPage_saturating
    [of "exPool RS_FIFO [exFrame 5 2 True, exFrame 7 0 False]"
        "exInfo [exFrame 5 2 True, exFrame 7 0 False]" "exPage 5" "exDisk 1"]
  by (simp add: exPool_def exInfo_def exFrame_def exPage_def unpinPage_def)

text \<open>
  Claim C9. For a page that no frame holds, and a page file that opens, \<^verbatim>\<open>forcePage\<close>
  returns \<^verbatim>\<open>RC_OK\<close> and leaves the pool, with its frames and \<^verbatim>\<open>writeCount\<close>, and the
  disk as they were.
\<close>

theorem forcePage_not_resident:
  assumes "mgmtData b = Some poolInfo"
    and "d (pageFile b) = Some bytes"
    and "pageNum pg \<notin> pageNumber ` set (frames poolInfo)"
  shows "forcePage (Some b) (Some pg) d = (RC_OK, Some b, d)"
  using assms by (simp add: forcePage_def openPageFile_def findFrame_None [symmetric])

theorem forcePage_not_resident_witness:
  "forcePage (Some (exPool RS_LRU [exFrame 5 2 True, exFrame 7 0 False]))
        (Some (exPage 3)) (exDisk 8)
     = (RC_OK, Some (exPool RS_LRU [exFrame 5 2 True, exFrame 7 0 False]), exDisk 8)"
  using forcePage_not_resident
    [of "exPool RS_LRU [exFrame 5 2 True, exFrame 7 0 False]"
        "exInfo [exFrame 5 2 True, exFrame 7 0 False]" "exDisk 8"
        "replicate (8 * PAGE_SIZE) 0" "exPage 3"]
  by (simp add: exPool_def exInfo_def exFrame_def exPage_def exDisk_def)

text \<open>
  Claim C10. When a frame holds the requested page, \<^verbatim>\<open>pinPage\<close> still opens the page
  file first: with the file missing it returns \<^verbatim>\<open>RC_FILE_NOT_FOUND\<close> and changes
  nothing. With the file present the hit returns \<^verbatim>\<open>RC_OK\<close> and leaves the disk, the
  counters \<^verbatim>\<open>readCount\<close> and \<^verbatim>\<open>writeCount\<close>, the buffers, the page numbers and the
  dirty flags as they were.
\<close>

theorem pinPage_hit_needs_file:
  assumes pool: "mgmtData b = Some poolInfo"
    and res: "pnum \<in> pageNumber ` set (frames poolInfo)"
  shows "(d (pageFile b) = None \<longrightarrow>
            pinPage (Some b) (Some pg) pnum d = (RC_FILE_NOT_FOUND, Some b, Some pg, d))
       \<and> (d (pageFile b) \<noteq> None \<longrightarrow>
            (case pinPage (Some b) (Some pg) pnum d of
               (rc, bm', pg', d') \<Rightarrow>
                 rc = RC_OK \<and> d' = d
                 \<and> getNumReadIO bm' = getNumReadIO (Some b)
                 \<and> getNumWriteIO bm' = getNumWriteIO (Some b)
                 \<and> map data (poolFrames bm') = map data (poolFrames (Some b))
                 \<and> getFrameContents bm' = getFrameContents (Some b)
                 \<and> getDirtyFlags bm' = getDirtyFlags (Some b)))"
proof -
  obtain i where i: "findFrame pnum (frames poolInfo) = Some i"
    using res findFrame_None [of pnum "frames poolInfo"]
    by (cases "findFrame pnum (frames poolInfo)") auto
  note ff = findFrame_Some [OF i]
  have a: "d (pageFile b) = None \<longrightarrow>
            pinPage (Some b) (Some pg) pnum d = (RC_FILE_NOT_FOUND, Some b, Some pg, d)"
    using pool by (simp add: pinPage_def openPageFile_def)
  have b: "d (pageFile b) \<noteq> None \<longrightarrow>
            (case pinPage (Some b) (Some pg) pnum d of
               (rc, bm', pg', d') \<Rightarrow>
                 rc = RC_OK \<and> d' = d
                 \<and> getNumReadIO bm' = getNumReadIO (Some b)
                 \<and> getNumWriteIO bm' = getNumWriteIO (Some b)
                 \<and> map data (poolFrames bm') = map data (poolFrames (Some b))
                 \<and> getFrameContents bm' = getFrameContents (Some b)
                 \<and> getDirtyFlags bm' = getDirtyFlags (Some b))"
    using pool i ff
    by (auto simp: pinPage_def openPageFile_def pinPage_hit_def Let_def map_update_same
          getNumReadIO_def getNumWriteIO_def poolFrames_def getFrameContents_def
          getDirtyFlags_def)
  show ?thesis using a b by simp
qed

theorem pinPage_hit_needs_file_witness:
  "pinPage (Some (exPool RS_CLOCK [exFrame 5 2 True, exFrame 7 0 False]))
        (Some (exPage 0)) 7 Map.empty
     = (RC_FILE_NOT_FOUND, Some (exPool RS_CLOCK [exFrame 5 2 True, exFrame 7 0 False]),
        Some (exPage 0), Map.empty)
   \<and> fst (pinPage (Some (exPool RS_CLOCK [exFrame 5 2 True, exFrame 7 0 False]))
        (Some (exPage 0)) 7 (exDisk 8)) = RC_OK"
  using pinPage_hit_needs_file
    [of "exPool RS_CLOCK [exFrame 5 2 True, exFrame 7 0 False]"
        "exInfo [exFrame 5 2 True, exFrame 7 0 False]" 7 Map.empty "exPage 0"]
    pinPage_hit_needs_file
    [of "exPool RS_CLOCK [exFrame 5 2 True, exFrame 7 0 False]"
        "exInfo [exFrame 5 2 True, exFrame 7 0 False]" 7 "exDisk 8" "exPage 0"]
  by (auto simp: exPool_def exInfo_def exFrame_def exPage_def exDisk_def)

section \<open>Properties of the buffer manager: flushing the pool\<close>

lemma writeBlock_fail_handle:
  "writeBlock p fh buf d = (rc, fh', d') \<Longrightarrow> rc \<noteq> RC_OK \<Longrightarrow> fh' = fh"
  by (auto simp: writeBlock_def Let_def split: option.splits if_splits)

lemma forceFlushPool_loop_skip:
  "\<not> flushable f \<Longrightarrow>
     forceFlushPool_loop (f # fs) wc fh d =
       (case forceFlushPool_loop fs wc fh d of
          (rc2, fs', wc', fh'', d'') \<Rightarrow> (rc2, f # fs', wc', fh'', d''))"
  by (auto simp: flushable_def split: prod.splits)

lemma forceFlushPool_loop_flush:
  "flushable f \<Longrightarrow>
     forceFlushPool_loop (f # fs) wc fh d =
        (case writeBlock (pageNumber f) fh (data f) d of
           (rc, fh', d') \<Rightarrow>
             if rc \<noteq> RC_OK then (RC_WRITE_FAILED, f # fs, wc, fh', d')
             else
               (case forceFlushPool_loop fs (wc + 1) fh' d' of
                  (rc2, fs', wc', fh'', d'') \<Rightarrow>
                    (rc2, f\<lparr>dirtybit := False\<rparr> # fs', wc', fh'', d'')))"
  by (simp add: flushable_def)

lemma forceFlushPool_loop_fails:
  assumes "flushable f" and "writeBlock (pageNumber f) fh (data f) d = (rc, fh1, d1)"
    and "rc \<noteq> RC_OK"
  shows "forceFlushPool_loop (f # fs) wc fh d = (RC_WRITE_FAILED, f # fs, wc, fh, d1)"
  using assms writeBlock_fail_handle [OF assms(2,3)]
  by (simp add: forceFlushPool_loop_flush del: forceFlushPool_loop.simps)

lemma forceFlushPool_loop_spec:
  "\<exists>k fh' dk. k \<le> length fs
     \<and> forceFlushPool_loop fs wc fh d =
         (if k = length fs then RC_OK else RC_WRITE_FAILED,
          map flushed (take k fs) @ drop k fs,
          wc + int (length (filter flushable (take k fs))),
          fh',
          if k = length fs then dk
          else snd (snd (writeBlock (pageNumber (fs ! k)) fh' (data (fs ! k)) dk)))
     \<and> writeFrames (filter flushable (take k fs)) fh d =
         (replicate (length (filter flushable (take k fs))) RC_OK, fh', dk)
     \<and> (k < length fs \<longrightarrow>
          flushable (fs ! k)
          \<and> fst (writeBlock (pageNumber (fs ! k)) fh' (data (fs ! k)) dk) \<noteq> RC_OK)"
proof (induction fs arbitrary: wc fh d)
  case Nil
  show ?case by simp
next
  case (Cons f fs)
  show ?case
  proof (cases "flushable f")
    case False
    obtain k fh' dk where k: "k \<le> length fs"
      "forceFlushPool_loop fs wc fh d =
         (if k = length fs then RC_OK else RC_WRITE_FAILED,
          map flushed (take k fs) @ drop k fs,
          wc + int (length (filter flushable (take k fs))),
          fh',
          if k = length fs then dk
          else snd (snd (writeBlock (pageNumber (fs ! k)) fh' (data (fs ! k)) dk)))"
      "writeFrames (filter flushable (take k fs)) fh d =
         (replicate (length (filter flushable (take k fs))) RC_OK, fh', dk)"
      "k < length fs \<longrightarrow>
          flushable (fs ! k)
          \<and> fst (writeBlock (pageNumber (fs ! k)) fh' (data (fs ! k)) dk) \<noteq> RC_OK"
      using Cons.IH [of wc fh d] by blast
    show ?thesis
      using k False
      by (intro exI [of _ "Suc k"] exI [of _ fh'] exI [of _ dk])
         (simp add: flushed_def forceFlushPool_loop_skip del: forceFlushPool_loop.simps)
  next
    case True
    obtain rc fh1 d1 where w: "writeBlock (pageNumber f) fh (data f) d = (rc, fh1, d1)"
      by (metis prod_cases3)
    show ?thesis
    proof (cases "rc = RC_OK")
      case False
      show ?thesis
        using w False True forceFlushPool_loop_fails [OF True w False, of fs wc]
        by (intro exI [of _ 0] exI [of _ fh] exI [of _ d]) simp
    next
      case ok: True
      obtain k fh' dk where k: "k \<le> length fs"
        "forceFlushPool_loop fs (wc + 1) fh1 d1 =
           (if k = length fs then RC_OK else RC_WRITE_FAILED,
            map flushed (take k fs) @ drop k fs,
            wc + 1 + int (length (filter flushable (take k fs))),
            fh',
            if k = length fs then dk
            else snd (snd (writeBlock (pageNumber (fs ! k)) fh' (data (fs ! k)) dk)))"
        "writeFrames (filter flushable (take k fs)) fh1 d1 =
           (replicate (length (filter flushable (take k fs))) RC_OK, fh', dk)"
        "k < length fs \<longrightarrow>
            flushable (fs ! k)
            \<and> fst (writeBlock (pageNumber (fs ! k)) fh' (data (fs ! k)) dk) \<noteq> RC_OK"
        using Cons.IH [of "wc + 1" fh1 d1] by blast
      show ?thesis
        using k w ok True
        by (intro exI [of _ "Suc k"] exI [of _ fh'] exI [of _ dk])
           (simp add: flushed_def forceFlushPool_loop_flush del: forceFlushPool_loop.simps)
    qed
  qed
qed

lemma not_flushable_flushed: "\<not> flushable (flushed f)"
  by (simp add: flushed_def flushable_def)

lemma flushed_id: "\<not> flushable f \<Longrightarrow> flushed f = f"
  by (simp add: flushed_def)

lemma forceFlushPool_loop_prefix:
  "\<forall>f \<in> set xs. \<not> flushable f \<Longrightarrow>
     forceFlushPool_loop (xs @ ys) wc fh d =
       (case forceFlushPool_loop ys wc fh d of
          (rc, ys', rest) \<Rightarrow> (rc, xs @ ys', rest))"
  by (induction xs)
     (auto simp: forceFlushPool_loop_skip split: prod.splits simp del: forceFlushPool_loop.simps(2))

lemma writeBlock_ok_sync:
  "writeBlock p (Some fh) buf d = (RC_OK, fh', d') \<Longrightarrow>
     \<exists>h. fh' = Some h \<and> fileName h = fileName fh \<and> inSync h d'"
proof -
  assume a: "writeBlock p (Some fh) buf d = (RC_OK, fh', d')"
  then have "case fh' of None \<Rightarrow> False
             | Some h \<Rightarrow> fileName h = fileName fh \<and> inSync h d'"
    by (auto simp: writeBlock_def Let_def inSync_def split: option.splits if_splits)
  then show ?thesis by (cases fh') auto
qed

lemma writeFrames_ok_sync:
  "writeFrames fs (Some fh) d = (replicate (length fs) RC_OK, fh', d') \<Longrightarrow> inSync fh d \<Longrightarrow>
     \<exists>h. fh' = Some h \<and> fileName h = fileName fh \<and> inSync h d'"
proof (induction fs arbitrary: fh d)
  case Nil
  then show ?case by auto
next
  case (Cons f fs)
  obtain rc fh1 d1 where w: "writeBlock (pageNumber f) (Some fh) (data f) d = (rc, fh1, d1)"
    by (metis prod_cases3)
  obtain rcs fh2 d2 where r: "writeFrames fs fh1 d1 = (rcs, fh2, d2)"
    by (metis prod_cases3)
  from Cons.prems(1) w r have e: "rc = RC_OK" "rcs = replicate (length fs) RC_OK"
    "fh2 = fh'" "d2 = d'" by simp_all
  from writeBlock_ok_sync w e(1) obtain h1 where h1: "fh1 = Some h1"
    "fileName h1 = fileName fh" "inSync h1 d1" by blast
  from Cons.IH [of h1 d1] r e h1 show ?case by auto
qed

lemma writeBlock_write:
  assumes "d (fileName fh) = Some bytes" "\<not> (p < 0 \<or> p > totalNumPages fh)"
    "\<not> blockOffset p < 0"
  shows "writeBlock p (Some fh) (Some b) d =
           (if length b < PAGE_SIZE
            then (RC_WRITE_FAILED, Some fh,
                  d(fileName fh \<mapsto> fwriteAt (nat (blockOffset p)) b bytes))
            else (RC_OK,
                  Some (fh\<lparr>curPagePos := p,
                           totalNumPages := pagesOfSize (length
                              (fwriteAt (nat (blockOffset p)) (take PAGE_SIZE b) bytes))\<rparr>),
                  d(fileName fh \<mapsto> fwriteAt (nat (blockOffset p)) (take PAGE_SIZE b) bytes)))"
proof (cases "length b < PAGE_SIZE")
  case True
  then have "take PAGE_SIZE b = b" by simp
  then show ?thesis using assms True by (simp add: writeBlock_def Let_def)
next
  case False
  then have "length (take PAGE_SIZE b) = PAGE_SIZE" by simp
  then show ?thesis using assms False by (simp add: writeBlock_def Let_def)
qed

text \<open>A write that has failed fails again on the disk it left, through a fresh handle,
  and leaves that disk as it is.\<close>

lemma writeBlock_fail_again:
  assumes w: "writeBlock p (Some h) buf d = (rc, fh', d')" and rc: "rc \<noteq> RC_OK"
    and s1: "inSync h d" and fn: "fileName h2 = fileName h" and s2: "inSync h2 d'"
  shows "fst (writeBlock p (Some h2) buf d') \<noteq> RC_OK
       \<and> snd (snd (writeBlock p (Some h2) buf d')) = d'"
proof (cases buf)
  case None
  then show ?thesis by (simp add: writeBlock_def)
next
  case (Some b)
  obtain bytes where fl: "d (fileName h) = Some bytes"
      and t1: "totalNumPages h = pagesOfSize (length bytes)"
    using s1 by (auto simp: inSync_def split: option.splits)
  obtain bytes' where fl': "d' (fileName h) = Some bytes'"
      and t2: "totalNumPages h2 = pagesOfSize (length bytes')"
    using s2 fn by (auto simp: inSync_def split: option.splits)
  have fl2: "d' (fileName h2) = Some bytes'" using fl' fn by simp
  show ?thesis
  proof (cases "p < 0 \<or> p > totalNumPages h")
    case True
    then have same: "d' = d" using w Some by (simp add: writeBlock_def)
    then have "bytes' = bytes" using fl fl' by simp
    then have "totalNumPages h2 = totalNumPages h" using t1 t2 by simp
    then show ?thesis using True Some by (simp add: writeBlock_def)
  next
    case range: False
    show ?thesis
    proof (cases "blockOffset p < 0")
      case True
      then have same: "d' = d" using w Some range fl by (simp add: writeBlock_def)
      then have "bytes' = bytes" using fl fl' by simp
      then have "totalNumPages h2 = totalNumPages h" using t1 t2 by simp
      then show ?thesis using True Some range fl2 by (simp add: writeBlock_def)
    next
      case off: False
      note wr = writeBlock_write [where d = d and fh = h and b = b, OF fl range off]
      have short: "length b < PAGE_SIZE"
        using w rc Some wr by (auto split: if_splits)
      let ?off = "nat (blockOffset p)"
      have d': "d' = d(fileName h \<mapsto> fwriteAt ?off b bytes)"
        using w Some wr short by simp
      then have b': "bytes' = fwriteAt ?off b bytes" using fl' by simp
      have "length bytes \<le> length bytes'" by (simp add: b' length_fwriteAt)
      then have "totalNumPages h \<le> totalNumPages h2"
        using t1 t2 pagesOfSize_mono by simp
      then have range2: "\<not> (p < 0 \<or> p > totalNumPages h2)" using range by simp
      have idem: "fwriteAt ?off b bytes' = bytes'" by (simp add: b' fwriteAt_idem)
      have "d'(fileName h2 \<mapsto> bytes') = d'" using fl2 by (simp add: fun_upd_idem)
      then show ?thesis
        using Some short idem writeBlock_write [where d = d' and fh = h2 and b = b, OF fl2 range2 off] by simp
    qed
  qed
qed

lemma openPageFile_ok:
  "d fname = Some bytes \<Longrightarrow>
     openPageFile fname fhLocal d =
       (RC_OK, \<lparr>fileName = fname, curPagePos = 0, totalNumPages = pagesOfSize (length bytes)\<rparr>)"
  by (simp add: openPageFile_def fhLocal_def)

lemma openPageFile_missing:
  "d fname = None \<Longrightarrow> openPageFile fname fhLocal d = (RC_FILE_NOT_FOUND, fhLocal)"
  by (simp add: openPageFile_def)

text \<open>Where the bytes of a written frame are: two block offsets are equal or a block
  apart, so a write to another offset leaves a block as it is.\<close>

lemma page_apart:
  fixes a b :: nat
  assumes "PAGE_SIZE dvd a" "PAGE_SIZE dvd b" "a \<noteq> b"
  shows "a + PAGE_SIZE \<le> b \<or> b + PAGE_SIZE \<le> a"
proof -
  obtain m n where mn: "a = PAGE_SIZE * m" "b = PAGE_SIZE * n"
    using assms(1,2) by (auto simp: dvd_def)
  then have "m \<noteq> n" using assms(3) by auto
  then have "m + 1 \<le> n \<or> n + 1 \<le> m" by linarith
  then have "PAGE_SIZE * (m + 1) \<le> PAGE_SIZE * n \<or> PAGE_SIZE * (n + 1) \<le> PAGE_SIZE * m"
    using mult_le_mono2 by blast
  then show ?thesis using mn by (simp add: algebra_simps)
qed

lemma nat_blockOffset_dvd: "PAGE_SIZE dvd nat (blockOffset p)"
proof (cases "blockOffset p < 0")
  case True
  then show ?thesis by simp
next
  case False
  have "PAGE_SIZE dvd nat \<bar>blockOffset p\<bar>"
    using blockOffset_dvd [of p] by (simp only: dvd_nat_abs_iff)
  moreover have "\<bar>blockOffset p\<bar> = blockOffset p" using False by simp
  ultimately show ?thesis by (simp only:)
qed

lemma writeBlock_ok_facts:
  assumes "writeBlock p (Some fh) buf d = (RC_OK, fh', d')"
  shows "\<exists>b bytes h. buf = Some b \<and> \<not> length b < PAGE_SIZE
           \<and> d (fileName fh) = Some bytes \<and> \<not> blockOffset p < 0
           \<and> fh' = Some h \<and> fileName h = fileName fh
           \<and> d' = d(fileName fh \<mapsto> fwriteAt (nat (blockOffset p)) (take PAGE_SIZE b) bytes)"
proof -
  obtain b where b: "buf = Some b" using assms by (cases buf) (simp_all add: writeBlock_def)
  have range: "\<not> (p < 0 \<or> p > totalNumPages fh)"
    using assms b by (auto simp: writeBlock_def split: if_splits)
  obtain bytes where fl: "d (fileName fh) = Some bytes"
    using assms b range by (cases "d (fileName fh)") (simp_all add: writeBlock_def)
  have off: "\<not> blockOffset p < 0"
    using assms b range fl by (auto simp: writeBlock_def split: if_splits)
  note wr = writeBlock_write [where d = d and fh = fh and b = b, OF fl range off]
  have long: "\<not> length b < PAGE_SIZE" using assms b wr by (auto split: if_splits)
  then show ?thesis using assms b wr fl off by auto
qed

lemma writeBlock_keeps:
  assumes w: "writeBlock p (Some fh) buf d = (rc, fh', d')"
    and fl: "d (fileName fh) = Some bytes" and within: "off + PAGE_SIZE \<le> length bytes"
    and al: "PAGE_SIZE dvd off" and ne: "blockOffset p \<noteq> int off"
  shows "\<exists>h bytes'. fh' = Some h \<and> fileName h = fileName fh
           \<and> d' (fileName fh) = Some bytes'
           \<and> off + PAGE_SIZE \<le> length bytes'
           \<and> freadAt off PAGE_SIZE bytes' = freadAt off PAGE_SIZE bytes"
proof (cases "buf = None \<or> p < 0 \<or> p > totalNumPages fh \<or> blockOffset p < 0")
  case True
  then have "fh' = Some fh" "d' = d"
    using w fl by (auto simp: writeBlock_def split: option.splits if_splits)
  then show ?thesis using fl within by simp
next
  case False
  then obtain b where b: "buf = Some b" by auto
  have range: "\<not> (p < 0 \<or> p > totalNumPages fh)" and off: "\<not> blockOffset p < 0"
    using False by auto
  note wr = writeBlock_write [where d = d and fh = fh and b = b, OF fl range off]
  let ?o = "nat (blockOffset p)"
  have "?o \<noteq> off" using ne off by auto
  then have apart: "?o + PAGE_SIZE \<le> off \<or> off + PAGE_SIZE \<le> ?o"
    by (rule page_apart [OF nat_blockOffset_dvd al])
  have keep: "freadAt off PAGE_SIZE (fwriteAt ?o xs bytes) = freadAt off PAGE_SIZE bytes
                \<and> off + PAGE_SIZE \<le> length (fwriteAt ?o xs bytes)"
    if "length xs \<le> PAGE_SIZE" for xs
    using apart within that
    by (auto simp: freadAt_fwriteAt_after freadAt_fwriteAt_before length_fwriteAt)
  show ?thesis
  proof (cases "length b < PAGE_SIZE")
    case True
    then have "fh' = Some fh" "d' = d(fileName fh \<mapsto> fwriteAt ?o b bytes)"
      using w b wr by simp_all
    then show ?thesis using keep [of b] True by simp
  next
    case False
    then have "\<exists>h. fh' = Some h \<and> fileName h = fileName fh"
      "d' = d(fileName fh \<mapsto> fwriteAt ?o (take PAGE_SIZE b) bytes)"
      using w b wr by auto
    then show ?thesis using keep [of "take PAGE_SIZE b"] by auto
  qed
qed

lemma forceFlushPool_loop_keeps:
  assumes "forceFlushPool_loop fs wc (Some fh) d = (rc, fs', wc', fh', d')"
    and "d (fileName fh) = Some bytes" "off + PAGE_SIZE \<le> length bytes" "PAGE_SIZE dvd off"
    and "\<forall>f \<in> set fs. flushable f \<longrightarrow> blockOffset (pageNumber f) \<noteq> int off"
  shows "\<exists>bytes'. d' (fileName fh) = Some bytes' \<and> off + PAGE_SIZE \<le> length bytes'
           \<and> freadAt off PAGE_SIZE bytes' = freadAt off PAGE_SIZE bytes"
  using assms
proof (induction fs arbitrary: wc fh d bytes rc fs' wc' fh' d')
  case Nil
  then show ?case by simp
next
  case (Cons f fs)
  have rest: "\<forall>g \<in> set fs. flushable g \<longrightarrow> blockOffset (pageNumber g) \<noteq> int off"
    using Cons.prems(5) by simp
  show ?case
  proof (cases "flushable f")
    case False
    obtain rc2 fs2 wc2 fh2 d2 where
      r: "forceFlushPool_loop fs wc (Some fh) d = (rc2, fs2, wc2, fh2, d2)"
      by (metis prod_cases5)
    have "d' = d2" using Cons.prems(1) False r
      by (simp add: forceFlushPool_loop_skip del: forceFlushPool_loop.simps)
    then show ?thesis
      using Cons.IH [OF r Cons.prems(2,3,4) rest] by simp
  next
    case True
    obtain rcw fh1 d1 where
      w: "writeBlock (pageNumber f) (Some fh) (data f) d = (rcw, fh1, d1)"
      by (metis prod_cases3)
    have ne: "blockOffset (pageNumber f) \<noteq> int off" using Cons.prems(5) True by simp
    from writeBlock_keeps [OF w Cons.prems(2,3,4) ne]
    obtain h1 bytes1 where k1: "fh1 = Some h1" "fileName h1 = fileName fh"
      "d1 (fileName fh) = Some bytes1" "off + PAGE_SIZE \<le> length bytes1"
      "freadAt off PAGE_SIZE bytes1 = freadAt off PAGE_SIZE bytes"
      by blast
    show ?thesis
    proof (cases "rcw = RC_OK")
      case False
      then have "d' = d1" using Cons.prems(1) True w
        by (simp add: forceFlushPool_loop_flush del: forceFlushPool_loop.simps)
      then show ?thesis using k1 by simp
    next
      case ok: True
      obtain rc2 fs2 wc2 fh2 d2 where
        r: "forceFlushPool_loop fs (wc + 1) (Some h1) d1 = (rc2, fs2, wc2, fh2, d2)"
        by (metis prod_cases5)
      have d': "d' = d2" using Cons.prems(1) True w ok r k1(1)
        by (simp add: forceFlushPool_loop_flush del: forceFlushPool_loop.simps)
      have fl1: "d1 (fileName h1) = Some bytes1" using k1(2,3) by simp
      from Cons.IH [OF r fl1 k1(4) Cons.prems(4) rest]
      show ?thesis using d' k1(2,5) by simp
    qed
  qed
qed

lemma forceFlushPool_loop_content:
  assumes "forceFlushPool_loop fs wc (Some fh) d = (rc, fs', wc', fh', d')"
    and "i < length fs" "flushable (fs ! i)" "\<not> dirtybit (fs' ! i)"
    and "\<forall>j<length fs. j \<noteq> i \<and> flushable (fs ! j) \<longrightarrow>
            blockOffset (pageNumber (fs ! j)) \<noteq> blockOffset (pageNumber (fs ! i))"
  shows "\<exists>buf bytes'. data (fs ! i) = Some buf \<and> PAGE_SIZE \<le> length buf
           \<and> d' (fileName fh) = Some bytes'
           \<and> freadAt (nat (blockOffset (pageNumber (fs ! i)))) PAGE_SIZE bytes'
               = take PAGE_SIZE buf"
  using assms
proof (induction fs arbitrary: i wc fh d rc fs' wc' fh' d')
  case Nil
  then show ?case by simp
next
  case (Cons f fs)
  show ?case
  proof (cases "flushable f")
    case False
    obtain rc2 fs2 wc2 fh2 d2 where
      r: "forceFlushPool_loop fs wc (Some fh) d = (rc2, fs2, wc2, fh2, d2)"
      by (metis prod_cases5)
    have res: "fs' = f # fs2" "d' = d2" using Cons.prems(1) False r
      by (simp_all add: forceFlushPool_loop_skip del: forceFlushPool_loop.simps)
    obtain i' where i': "i = Suc i'" using Cons.prems(3) False by (cases i) simp_all
    have u: "\<forall>j<length fs. j \<noteq> i' \<and> flushable (fs ! j) \<longrightarrow>
            blockOffset (pageNumber (fs ! j)) \<noteq> blockOffset (pageNumber (fs ! i'))"
    proof (intro allI impI)
      fix j assume "j < length fs" "j \<noteq> i' \<and> flushable (fs ! j)"
      then show "blockOffset (pageNumber (fs ! j)) \<noteq> blockOffset (pageNumber (fs ! i'))"
        using Cons.prems(5) [rule_format, of "Suc j"] i' by simp
    qed
    from Cons.IH [OF r _ _ _ u] Cons.prems(2,3,4) i' res
    show ?thesis by simp
  next
    case True
    obtain rcw fh1 d1 where
      w: "writeBlock (pageNumber f) (Some fh) (data f) d = (rcw, fh1, d1)"
      by (metis prod_cases3)
    have ok: "rcw = RC_OK"
    proof (rule ccontr)
      assume "rcw \<noteq> RC_OK"
      then have "fs' = f # fs" using Cons.prems(1) True w
        by (simp add: forceFlushPool_loop_flush del: forceFlushPool_loop.simps)
      then show False using Cons.prems(3,4) by (simp add: flushable_def)
    qed
    from writeBlock_ok_facts [OF w [unfolded ok]]
    obtain b bytes h1 where f: "data f = Some b" "\<not> length b < PAGE_SIZE"
      "d (fileName fh) = Some bytes" "\<not> blockOffset (pageNumber f) < 0"
      "fh1 = Some h1" "fileName h1 = fileName fh"
      "d1 = d(fileName fh \<mapsto>
              fwriteAt (nat (blockOffset (pageNumber f))) (take PAGE_SIZE b) bytes)"
      by blast
    obtain rc2 fs2 wc2 fh2 d2 where
      r: "forceFlushPool_loop fs (wc + 1) (Some h1) d1 = (rc2, fs2, wc2, fh2, d2)"
      by (metis prod_cases5)
    have res: "fs' = f\<lparr>dirtybit := False\<rparr> # fs2" "d' = d2"
      using Cons.prems(1) True w ok r f(5)
      by (simp_all add: forceFlushPool_loop_flush del: forceFlushPool_loop.simps)
    show ?thesis
    proof (cases i)
      case 0
      let ?o = "nat (blockOffset (pageNumber f))"
      let ?w = "take PAGE_SIZE b"
      let ?b1 = "fwriteAt ?o ?w bytes"
      have lw: "length ?w = PAGE_SIZE" using f(2) by simp
      have fl1: "d1 (fileName h1) = Some ?b1" using f(6,7) by simp
      have "length ?b1 = max (length bytes) (?o + length ?w)" by (rule length_fwriteAt)
      then have in1: "?o + PAGE_SIZE \<le> length ?b1" unfolding lw by simp
      have rd: "freadAt ?o PAGE_SIZE ?b1 = ?w"
        using freadAt_fwriteAt [of ?o ?w bytes] lw by simp
      have oth: "\<forall>g \<in> set fs. flushable g \<longrightarrow> blockOffset (pageNumber g) \<noteq> int ?o"
      proof (intro ballI impI)
        fix g assume "g \<in> set fs" "flushable g"
        then obtain j where "j < length fs" "fs ! j = g" by (auto simp: in_set_conv_nth)
        then have "blockOffset (pageNumber g) \<noteq> blockOffset (pageNumber f)"
          using Cons.prems(5) [rule_format, of "Suc j"] 0 \<open>flushable g\<close> by simp
        then show "blockOffset (pageNumber g) \<noteq> int ?o" using f(4) by simp
      qed
      from forceFlushPool_loop_keeps [OF r fl1 in1 nat_blockOffset_dvd oth]
      obtain bytes' where "d2 (fileName h1) = Some bytes'"
        "freadAt ?o PAGE_SIZE bytes' = freadAt ?o PAGE_SIZE ?b1" by blast
      then show ?thesis using 0 f(1,2,6) res(2) rd by simp
    next
      case (Suc i')
      have u: "\<forall>j<length fs. j \<noteq> i' \<and> flushable (fs ! j) \<longrightarrow>
              blockOffset (pageNumber (fs ! j)) \<noteq> blockOffset (pageNumber (fs ! i'))"
      proof (intro allI impI)
        fix j assume "j < length fs" "j \<noteq> i' \<and> flushable (fs ! j)"
        then show "blockOffset (pageNumber (fs ! j)) \<noteq> blockOffset (pageNumber (fs ! i'))"
          using Cons.prems(5) [rule_format, of "Suc j"] Suc by simp
      qed
      from Cons.IH [OF r _ _ _ u] Cons.prems(2,3,4) Suc res f(6)
      show ?thesis by simp
    qed
  qed
qed

lemma writeBlock_file_stays:
  "d (fileName fh) = Some bytes \<Longrightarrow>
     \<exists>bytes'. snd (snd (writeBlock p (Some fh) buf d)) (fileName fh) = Some bytes'"
  by (auto simp: writeBlock_def Let_def split: option.splits)

lemma forceFlushPool_char:
  assumes pool: "mgmtData b = Some poolInfo"
    and fl: "d (pageFile b) = Some bytes"
  shows "\<exists>k fh' dk d'.
           k \<le> length (frames poolInfo)
         \<and> forceFlushPool (Some b) d =
             (if k = length (frames poolInfo) then RC_OK else RC_WRITE_FAILED,
              Some (b\<lparr>mgmtData := Some (poolInfo
                 \<lparr>frames := map flushed (take k (frames poolInfo)) @ drop k (frames poolInfo),
                  writeCount := writeCount poolInfo
                     + int (length (filter flushable (take k (frames poolInfo))))\<rparr>)\<rparr>),
              d')
         \<and> writeFrames (filter flushable (take k (frames poolInfo)))
               (Some (snd (openPageFile (pageFile b) fhLocal d))) d =
             (replicate (length (filter flushable (take k (frames poolInfo)))) RC_OK, fh', dk)
         \<and> (k = length (frames poolInfo) \<longrightarrow> d' = dk)
         \<and> (k < length (frames poolInfo) \<longrightarrow>
              flushable (frames poolInfo ! k)
              \<and> fst (writeBlock (pageNumber (frames poolInfo ! k)) fh'
                        (data (frames poolInfo ! k)) dk) \<noteq> RC_OK
              \<and> d' = snd (snd (writeBlock (pageNumber (frames poolInfo ! k)) fh'
                                  (data (frames poolInfo ! k)) dk)))
         \<and> (\<forall>j<length (frames poolInfo). accessCount (frames poolInfo ! j) \<noteq> 0 \<longrightarrow>
              (map flushed (take k (frames poolInfo)) @ drop k (frames poolInfo)) ! j
                = frames poolInfo ! j)
         \<and> (\<forall>i<k. flushable (frames poolInfo ! i) \<longrightarrow>
              (\<forall>j<length (frames poolInfo). j \<noteq> i \<and> flushable (frames poolInfo ! j) \<longrightarrow>
                  blockOffset (pageNumber (frames poolInfo ! j))
                    \<noteq> blockOffset (pageNumber (frames poolInfo ! i))) \<longrightarrow>
              (\<exists>buf bytes'. data (frames poolInfo ! i) = Some buf
                  \<and> PAGE_SIZE \<le> length buf
                  \<and> d' (pageFile b) = Some bytes'
                  \<and> freadAt (nat (blockOffset (pageNumber (frames poolInfo ! i)))) PAGE_SIZE
                       bytes' = take PAGE_SIZE buf))"
proof -
  let ?fs = "frames poolInfo"
  let ?fh = "\<lparr>fileName = pageFile b, curPagePos = 0, totalNumPages = pagesOfSize (length bytes)\<rparr>"
  have op: "openPageFile (pageFile b) fhLocal d = (RC_OK, ?fh)"
    using fl by (rule openPageFile_ok)
  obtain k fh' dk where k: "k \<le> length ?fs"
     "forceFlushPool_loop ?fs (writeCount poolInfo) (Some ?fh) d =
         (if k = length ?fs then RC_OK else RC_WRITE_FAILED,
          map flushed (take k ?fs) @ drop k ?fs,
          writeCount poolInfo + int (length (filter flushable (take k ?fs))),
          fh',
          if k = length ?fs then dk
          else snd (snd (writeBlock (pageNumber (?fs ! k)) fh' (data (?fs ! k)) dk)))"
     "writeFrames (filter flushable (take k ?fs)) (Some ?fh) d =
         (replicate (length (filter flushable (take k ?fs))) RC_OK, fh', dk)"
     "k < length ?fs \<longrightarrow>
          flushable (?fs ! k)
          \<and> fst (writeBlock (pageNumber (?fs ! k)) fh' (data (?fs ! k)) dk) \<noteq> RC_OK"
    using forceFlushPool_loop_spec [of ?fs "writeCount poolInfo" "Some ?fh" d] by blast
  let ?fs1 = "map flushed (take k ?fs) @ drop k ?fs"
  let ?d' = "if k = length ?fs then dk
             else snd (snd (writeBlock (pageNumber (?fs ! k)) fh' (data (?fs ! k)) dk))"
  have r: "forceFlushPool (Some b) d =
             (if k = length ?fs then RC_OK else RC_WRITE_FAILED,
              Some (b\<lparr>mgmtData := Some (poolInfo
                 \<lparr>frames := ?fs1,
                  writeCount := writeCount poolInfo
                     + int (length (filter flushable (take k ?fs)))\<rparr>)\<rparr>),
              ?d')"
    using pool op k(2) by (simp add: forceFlushPool_def)
  have pinned: "\<forall>j<length ?fs. accessCount (?fs ! j) \<noteq> 0 \<longrightarrow> ?fs1 ! j = ?fs ! j"
  proof (intro allI impI)
    fix j assume j: "j < length ?fs" and p: "accessCount (?fs ! j) \<noteq> 0"
    then have nf: "flushed (?fs ! j) = ?fs ! j" by (simp add: flushed_def flushable_def)
    show "?fs1 ! j = ?fs ! j"
      using j k(1) nf by (cases "j < k") (simp_all add: nth_append)
  qed
  have content: "\<forall>i<k. flushable (?fs ! i) \<longrightarrow>
              (\<forall>j<length ?fs. j \<noteq> i \<and> flushable (?fs ! j) \<longrightarrow>
                  blockOffset (pageNumber (?fs ! j)) \<noteq> blockOffset (pageNumber (?fs ! i))) \<longrightarrow>
              (\<exists>buf bytes'. data (?fs ! i) = Some buf
                  \<and> PAGE_SIZE \<le> length buf
                  \<and> ?d' (pageFile b) = Some bytes'
                  \<and> freadAt (nat (blockOffset (pageNumber (?fs ! i)))) PAGE_SIZE
                       bytes' = take PAGE_SIZE buf)"
  proof (intro allI impI)
    fix i
    assume i: "i < k" and fi: "flushable (?fs ! i)"
      and u: "\<forall>j<length ?fs. j \<noteq> i \<and> flushable (?fs ! j) \<longrightarrow>
                  blockOffset (pageNumber (?fs ! j)) \<noteq> blockOffset (pageNumber (?fs ! i))"
    have il: "i < length ?fs" using i k(1) by simp
    have "?fs1 ! i = flushed (?fs ! i)" using i k(1) by (simp add: nth_append)
    then have clean: "\<not> dirtybit (?fs1 ! i)" using fi by (simp add: flushed_def)
    from forceFlushPool_loop_content [OF k(2) il fi clean u]
    show "\<exists>buf bytes'. data (?fs ! i) = Some buf
                  \<and> PAGE_SIZE \<le> length buf
                  \<and> ?d' (pageFile b) = Some bytes'
                  \<and> freadAt (nat (blockOffset (pageNumber (?fs ! i)))) PAGE_SIZE
                       bytes' = take PAGE_SIZE buf"
      by simp
  qed
  have e1: "k = length ?fs \<longrightarrow> ?d' = dk" by simp
  have e2: "k < length ?fs \<longrightarrow>
              flushable (?fs ! k)
              \<and> fst (writeBlock (pageNumber (?fs ! k)) fh' (data (?fs ! k)) dk) \<noteq> RC_OK
              \<and> ?d' = snd (snd (writeBlock (pageNumber (?fs ! k)) fh' (data (?fs ! k)) dk))"
    using k(4) by simp
  have w: "writeFrames (filter flushable (take k ?fs))
               (Some (snd (openPageFile (pageFile b) fhLocal d))) d =
             (replicate (length (filter flushable (take k ?fs))) RC_OK, fh', dk)"
    using k(3) op by simp
  show ?thesis
    apply (rule exI [of _ k])
    apply (rule exI [of _ fh'])
    apply (rule exI [of _ dk])
    apply (rule exI [of _ ?d'])
    apply (intro conjI)
          apply (rule k(1))
         apply (rule r)
        apply (rule w)
       apply (rule e1)
      apply (rule e2)
     apply (rule pinned)
    apply (rule content)
    done
qed




text \<open>A second \<^verbatim>\<open>forceFlushPool\<close> on what the first one left.\<close>

lemma forceFlushPool_again:
  assumes pool: "mgmtData b = Some poolInfo"
    and fl: "d (pageFile b) = Some bytes"
    and run: "forceFlushPool (Some b) d = (rc, bm1, d1)"
  shows "forceFlushPool bm1 d1 = (rc, bm1, d1)"
proof -
  let ?fs = "frames poolInfo"
  let ?fh = "\<lparr>fileName = pageFile b, curPagePos = 0, totalNumPages = pagesOfSize (length bytes)\<rparr>"
  have op: "openPageFile (pageFile b) fhLocal d = (RC_OK, ?fh)"
    using fl by (rule openPageFile_ok)
  obtain k fh' dk d' where k: "k \<le> length ?fs"
     "forceFlushPool (Some b) d =
             (if k = length ?fs then RC_OK else RC_WRITE_FAILED,
              Some (b\<lparr>mgmtData := Some (poolInfo
                 \<lparr>frames := map flushed (take k ?fs) @ drop k ?fs,
                  writeCount := writeCount poolInfo
                     + int (length (filter flushable (take k ?fs)))\<rparr>)\<rparr>),
              d')"
     "writeFrames (filter flushable (take k ?fs)) (Some ?fh) d =
         (replicate (length (filter flushable (take k ?fs))) RC_OK, fh', dk)"
     "k = length ?fs \<longrightarrow> d' = dk"
     "k < length ?fs \<longrightarrow>
          flushable (?fs ! k)
          \<and> fst (writeBlock (pageNumber (?fs ! k)) fh' (data (?fs ! k)) dk) \<noteq> RC_OK
          \<and> d' = snd (snd (writeBlock (pageNumber (?fs ! k)) fh' (data (?fs ! k)) dk))"
    using forceFlushPool_char [where d = d, OF pool fl] op by auto
  let ?fs1 = "map flushed (take k ?fs) @ drop k ?fs"
  let ?wc1 = "writeCount poolInfo + int (length (filter flushable (take k ?fs)))"
  let ?p1 = "poolInfo\<lparr>frames := ?fs1, writeCount := ?wc1\<rparr>"
  let ?b1 = "b\<lparr>mgmtData := Some ?p1\<rparr>"
  have res: "rc = (if k = length ?fs then RC_OK else RC_WRITE_FAILED)" "bm1 = Some ?b1" "d1 = d'"
    using run k(2) by simp_all
  have "inSync ?fh d" using fl by (simp add: inSync_def)
  from writeFrames_ok_sync [OF k(3) this]
  obtain h where h: "fh' = Some h" "fileName h = pageFile b" "inSync h dk" by auto
  then obtain bytesk where bk: "dk (fileName h) = Some bytesk"
    by (auto simp: inSync_def split: option.splits)
  have "\<exists>bytes'. d' (pageFile b) = Some bytes'"
  proof (cases "k = length ?fs")
    case True
    then show ?thesis using k(4) bk h(2) by simp
  next
    case False
    then have "d' = snd (snd (writeBlock (pageNumber (?fs ! k)) (Some h) (data (?fs ! k)) dk))"
      using k(1,5) h(1) by simp
    then show ?thesis
      using writeBlock_file_stays [where d = dk and fh = h and p = "pageNumber (?fs ! k)"
              and buf = "data (?fs ! k)", OF bk] h(2)
      by simp
  qed
  then obtain bytes' where b': "d' (pageFile b) = Some bytes'" by blast
  let ?fh2 = "\<lparr>fileName = pageFile b, curPagePos = 0, totalNumPages = pagesOfSize (length bytes')\<rparr>"
  have op2: "openPageFile (pageFile b) fhLocal d' = (RC_OK, ?fh2)"
    using b' by (rule openPageFile_ok)
  have s2: "inSync ?fh2 d'" using b' by (simp add: inSync_def)
  have pre: "\<forall>f \<in> set (map flushed (take k ?fs)). \<not> flushable f"
    by (auto simp: not_flushable_flushed)
  have loop: "forceFlushPool_loop ?fs1 ?wc1 (Some ?fh2) d' =
                (if k = length ?fs then RC_OK else RC_WRITE_FAILED, ?fs1, ?wc1, Some ?fh2, d')"
  proof (cases "k = length ?fs")
    case True
    then show ?thesis
      using forceFlushPool_loop_prefix [OF pre, of "[]" ?wc1 "Some ?fh2" d'] by simp
  next
    case False
    then have kl: "k < length ?fs" using k(1) by simp
    then have dr: "drop k ?fs = (?fs ! k) # drop (Suc k) ?fs"
      by (simp add: Cons_nth_drop_Suc)
    have fl1: "flushable (?fs ! k)" using k(5) kl by simp
    obtain rcw fhw where
      w: "writeBlock (pageNumber (?fs ! k)) (Some h) (data (?fs ! k)) dk = (rcw, fhw, d')"
      and rcw: "rcw \<noteq> RC_OK"
      using k(5) kl h(1)
      by (cases "writeBlock (pageNumber (?fs ! k)) (Some h) (data (?fs ! k)) dk") auto
    have fn: "fileName ?fh2 = fileName h" using h(2) by simp
    from writeBlock_fail_again [OF w rcw h(3) fn s2]
    obtain rc2 fh2' where
      w2: "writeBlock (pageNumber (?fs ! k)) (Some ?fh2) (data (?fs ! k)) d' = (rc2, fh2', d')"
      and rc2: "rc2 \<noteq> RC_OK"
      by (cases "writeBlock (pageNumber (?fs ! k)) (Some ?fh2) (data (?fs ! k)) d'") auto
    from forceFlushPool_loop_fails [OF fl1 w2 rc2, of "drop (Suc k) ?fs" ?wc1]
    show ?thesis
      using forceFlushPool_loop_prefix [OF pre, of "drop k ?fs" ?wc1 "Some ?fh2" d'] dr False
      by simp
  qed
  have "forceFlushPool (Some ?b1) d' =
          (if k = length ?fs then RC_OK else RC_WRITE_FAILED, Some ?b1, d')"
    using op2 loop by (simp add: forceFlushPool_def)
  then show ?thesis using res by simp
qed

text \<open>
  Claim C6. A second \<^verbatim>\<open>forceFlushPool\<close> right after a first one returns the same code
  and leaves the pool, \<^verbatim>\<open>writeCount\<close> included, and the disk exactly as the first call
  left them.
\<close>

theorem forceFlushPool_twice:
  "(case forceFlushPool bm d of (rc, bm1, d1) \<Rightarrow> forceFlushPool bm1 d1 = (rc, bm1, d1))"
proof (cases bm)
  case None
  then show ?thesis by (simp add: forceFlushPool_def)
next
  case (Some b)
  show ?thesis
  proof (cases "mgmtData b")
    case None
    then show ?thesis using Some by (simp add: forceFlushPool_def)
  next
    case pi: (Some poolInfo)
    show ?thesis
    proof (cases "d (pageFile b)")
      case None
      then show ?thesis using Some pi
        by (simp add: forceFlushPool_def openPageFile_missing)
    next
      case fl: (Some bytes)
      obtain rc bm1 d1 where run: "forceFlushPool (Some b) d = (rc, bm1, d1)"
        by (metis prod_cases3)
      from forceFlushPool_again [OF pi fl run] run Some show ?thesis by simp
    qed
  qed
qed

theorem forceFlushPool_twice_witness:
  "(case forceFlushPool (Some (exPool RS_LRU [exFrame 0 0 True, exFrame 1 1 True])) (exDisk 2) of
      (rc, bm1, d1) \<Rightarrow> forceFlushPool bm1 d1 = (rc, bm1, d1))"
  using forceFlushPool_twice
    [of "Some (exPool RS_LRU [exFrame 0 0 True, exFrame 1 1 True])" "exDisk 2"] .

section \<open>Loading a page: \<^verbatim>\<open>ensureCapacity\<close> followed by \<^verbatim>\<open>readBlock\<close>\<close>

lemma inSync_appendEmptyBlock:
  assumes "d (fileName fh) = Some bytes" "totalNumPages fh = pagesOfSize (length bytes)"
  shows "appendEmptyBlock (Some fh) d =
           (RC_OK, Some (fh\<lparr>totalNumPages := totalNumPages fh + 1\<rparr>),
            d(fileName fh \<mapsto> bytes @ replicate PAGE_SIZE 0))"
  using assms by (simp add: appendEmptyBlock_def)

lemma ensureCapacity_while_char:
  "d (fileName fh) = Some bytes \<Longrightarrow>
     ensureCapacity_while n fh d =
       (RC_OK, Some (fh\<lparr>totalNumPages := max (totalNumPages fh) n\<rparr>),
        d(fileName fh \<mapsto> bytes @ replicate (nat (max (totalNumPages fh) n - totalNumPages fh) * PAGE_SIZE) 0))"
proof (induction n fh d arbitrary: bytes rule: ensureCapacity_while.induct)
  case (1 n fh d)
  show ?case
  proof (cases "totalNumPages fh < n")
    case False
    then have m: "max (totalNumPages fh) n = totalNumPages fh" by simp
    have "d(fileName fh \<mapsto> bytes) = d" using "1.prems" by (simp add: fun_upd_idem)
    then show ?thesis using False m
      by (subst ensureCapacity_while.simps) simp
  next
    case True
    let ?fh1 = "fh\<lparr>totalNumPages := totalNumPages fh + 1\<rparr>"
    let ?d1 = "d(fileName fh \<mapsto> bytes @ replicate PAGE_SIZE 0)"
    have ap: "appendEmptyBlock (Some fh) d = (RC_OK, Some ?fh1, ?d1)"
      using "1.prems" by (simp add: appendEmptyBlock_def)
    have f1: "?d1 (fileName ?fh1) = Some (bytes @ replicate PAGE_SIZE 0)" by simp
    have ih: "ensureCapacity_while n ?fh1 ?d1 =
       (RC_OK, Some (?fh1\<lparr>totalNumPages := max (totalNumPages ?fh1) n\<rparr>),
        ?d1(fileName ?fh1 \<mapsto> (bytes @ replicate PAGE_SIZE 0)
            @ replicate (nat (max (totalNumPages ?fh1) n - totalNumPages ?fh1) * PAGE_SIZE) 0))"
      using "1.IH" [of RC_OK "(Some ?fh1, ?d1)" "Some ?fh1" ?d1 ?fh1
                       "bytes @ replicate PAGE_SIZE 0"] True ap
      by (simp add: fun_upd_def)
    have mx: "max (totalNumPages fh + 1) n = n" "max (totalNumPages fh) n = n"
      using True by simp_all
    define k where "k = nat (n - (totalNumPages fh + 1))"
    have k: "nat (n - (totalNumPages fh + 1)) = k" "nat (n - totalNumPages fh) = Suc k"
      using True by (simp_all add: k_def)
    have "ensureCapacity_while n fh d = ensureCapacity_while n ?fh1 ?d1"
      using True ap by (subst ensureCapacity_while.simps) simp
    also have "\<dots> = (RC_OK, Some (fh\<lparr>totalNumPages := n\<rparr>),
        d(fileName fh \<mapsto> bytes @ replicate PAGE_SIZE 0 @ replicate (k * PAGE_SIZE) 0))"
      using ih mx k by simp
    also have "\<dots> = (RC_OK, Some (fh\<lparr>totalNumPages := max (totalNumPages fh) n\<rparr>),
        d(fileName fh \<mapsto> bytes @ replicate (nat (max (totalNumPages fh) n - totalNumPages fh) * PAGE_SIZE) 0))"
      using mx k by (simp add: replicate_add)
    finally show ?thesis .
  qed
qed

lemma openPageFile_opened:
  "d fname = Some bytes \<Longrightarrow> openPageFile fname fhLocal d = (RC_OK, openedHandle fname bytes)"
  by (simp add: openPageFile_def fhLocal_def openedHandle_def)

lemma ensureCapacity_opened:
  assumes "d fname = Some bytes"
  shows "ensureCapacity n (Some (openedHandle fname bytes)) d =
           (RC_OK,
            Some ((openedHandle fname bytes)
                    \<lparr>totalNumPages := max (pagesOfSize (length bytes)) n\<rparr>),
            d(fname \<mapsto> grown n bytes))"
proof (cases "n \<le> pagesOfSize (length bytes)")
  case True
  then have m: "max (pagesOfSize (length bytes)) n = pagesOfSize (length bytes)" by simp
  have g: "grown n bytes = bytes" by (simp add: grown_def m)
  have "d(fname \<mapsto> bytes) = d" using assms by (simp add: fun_upd_idem)
  then show ?thesis using True assms m g
    by (simp add: ensureCapacity_def openedHandle_def)
next
  case False
  have "ensureCapacity n (Some (openedHandle fname bytes)) d =
          ensureCapacity_while n (openedHandle fname bytes) d"
    using False assms by (simp add: ensureCapacity_def openedHandle_def)
  also have "\<dots> = (RC_OK,
            Some ((openedHandle fname bytes)
                    \<lparr>totalNumPages := max (pagesOfSize (length bytes)) n\<rparr>),
            d(fname \<mapsto> grown n bytes))"
    using ensureCapacity_while_char [of d "openedHandle fname bytes" bytes n] assms
    by (simp add: openedHandle_def grown_def)
  finally show ?thesis .
qed

lemma length_grown_ge: "length bytes \<le> length (grown n bytes)"
  by (simp add: grown_def)

lemma take_grown: "take (length bytes) (grown n bytes) = bytes"
  by (simp add: grown_def)

lemma length_freadAt_within:
  "pageWithin p bytes \<Longrightarrow> length (freadAt (PAGE_SIZE * nat p) PAGE_SIZE bytes) = PAGE_SIZE"
proof -
  assume "pageWithin p bytes"
  then have "PAGE_SIZE * nat p + PAGE_SIZE \<le> length bytes"
    by (simp add: pageWithin_def algebra_simps)
  moreover have "length (freadAt (PAGE_SIZE * nat p) PAGE_SIZE bytes)
                   = min PAGE_SIZE (length bytes - PAGE_SIZE * nat p)"
    by (simp add: freadAt_def)
  ultimately show ?thesis by linarith
qed

lemma readBlock_within:
  assumes fl: "d1 (fileName fh1) = Some bytes1"
    and lt: "pnum < totalNumPages fh1"
    and w: "pageWithin pnum bytes1"
    and b: "pnum * int PAGE_SIZE < 2 ^ 31"
  shows "readBlock pnum (Some fh1) mallocPage d1 =
           (RC_OK, Some (fh1\<lparr>curPagePos := pnum\<rparr>),
            Some (freadAt (PAGE_SIZE * nat pnum) PAGE_SIZE bytes1))"
proof -
  have p: "0 \<le> pnum" using w by (simp add: pageWithin_def)
  have off: "\<not> blockOffset pnum < 0" by (rule blockOffset_nonneg [OF p b])
  have o: "nat (blockOffset pnum) = PAGE_SIZE * nat pnum"
    using nat_blockOffset [OF p b] by (simp add: mult.commute)
  have "length (freadAt (PAGE_SIZE * nat pnum) PAGE_SIZE bytes1) = PAGE_SIZE"
    using w by (rule length_freadAt_within)
  then show ?thesis
    using fl lt p off o by (simp add: readBlock_def mallocPage_def Let_def)
qed

lemma grown_aligned:
  assumes "length bytes mod PAGE_SIZE = 0"
  shows "length (grown n bytes) mod PAGE_SIZE = 0"
  using assms by (simp add: grown_def)

lemma grown_within:
  assumes al: "length bytes mod PAGE_SIZE = 0" and p: "0 \<le> pnum"
  shows "pageWithin pnum (grown (pnum + 1) bytes)"
proof -
  obtain t where t: "length bytes = t * PAGE_SIZE"
    using al by (auto simp: mod_eq_0_iff_dvd dvd_def mult.commute)
  have pt: "pagesOfSize (length bytes) = int t" by (simp add: t pagesOfSize_mult)
  have "length (grown (pnum + 1) bytes) = t * PAGE_SIZE + nat (max (int t) (pnum + 1) - int t) * PAGE_SIZE"
    using pt by (simp add: grown_def t pagesOfSize_mult)
  also have "\<dots> = (t + nat (max (int t) (pnum + 1) - int t)) * PAGE_SIZE"
    by (simp add: algebra_simps)
  finally have l: "length (grown (pnum + 1) bytes) = (t + nat (max (int t) (pnum + 1) - int t)) * PAGE_SIZE" .
  have "nat pnum + 1 \<le> t + nat (max (int t) (pnum + 1) - int t)" using p by linarith
  then have "(nat pnum + 1) * PAGE_SIZE \<le> (t + nat (max (int t) (pnum + 1) - int t)) * PAGE_SIZE"
    by (rule mult_le_mono1)
  then show ?thesis using p l by (simp add: pageWithin_def)
qed

text \<open>The load on a page file of whole pages, for a page number whose block offset
  does not wrap around.\<close>

lemma loadPage_ok:
  assumes fl: "d fname = Some bytes"
    and al: "length bytes mod PAGE_SIZE = 0"
    and p: "0 \<le> pnum"
    and b: "pnum * int PAGE_SIZE < 2 ^ 31"
  shows "loadPage fname bytes pnum d =
           (RC_OK,
            Some (freadAt (PAGE_SIZE * nat pnum) PAGE_SIZE (grown (pnum + 1) bytes)),
            d(fname \<mapsto> grown (pnum + 1) bytes))"
proof -
  let ?fh1 = "(openedHandle fname bytes)
                \<lparr>totalNumPages := max (pagesOfSize (length bytes)) (pnum + 1)\<rparr>"
  let ?d1 = "d(fname \<mapsto> grown (pnum + 1) bytes)"
  have i: "int32 (pnum + 1) = pnum + 1" by (rule int32_succ_page [OF p b])
  have ens: "ensureCapacity (int32 (pnum + 1)) (Some (openedHandle fname bytes)) d =
               (RC_OK, Some ?fh1, ?d1)"
    unfolding i using fl by (rule ensureCapacity_opened)
  have w: "pageWithin pnum (grown (pnum + 1) bytes)" using al p by (rule grown_within)
  have rd: "readBlock pnum (Some ?fh1) mallocPage ?d1 =
              (RC_OK, Some (?fh1\<lparr>curPagePos := pnum\<rparr>),
               Some (freadAt (PAGE_SIZE * nat pnum) PAGE_SIZE (grown (pnum + 1) bytes)))"
    by (rule readBlock_within [OF _ _ w b]) (simp_all add: openedHandle_def)
  show ?thesis by (simp add: loadPage_def ens rd)
qed

section \<open>The replacement strategies\<close>

lemma sameCore_refl [simp]: "sameCore f f"
  by (simp add: sameCore_def)

lemma sameCore_trans: "sameCore f g \<Longrightarrow> sameCore g h \<Longrightarrow> sameCore f h"
  by (simp add: sameCore_def)

lemma victimWrite_cong:
  "sameCore f g \<Longrightarrow> victimWrite fname f wc d = victimWrite fname g wc d"
  by (auto simp: sameCore_def victimWrite_def split: prod.splits)

lemma writeVictim_victimWrite:
  "writeVictim bm idx poolInfo d =
     (poolInfo\<lparr>writeCount := fst (victimWrite (pageFile bm) (frames poolInfo ! idx)
                                      (writeCount poolInfo) d)\<rparr>,
      snd (victimWrite (pageFile bm) (frames poolInfo ! idx) (writeCount poolInfo) d))"
  by (auto simp: writeVictim_def victimWrite_def split: prod.splits)

lemma strategyOutcome_keep: "length fs' = length fs \<Longrightarrow>
    \<forall>j<length fs. sameCore (fs' ! j) (fs ! j) \<Longrightarrow> strategyOutcome fname page fs wc d fs' wc d"
  by (simp add: strategyOutcome_def)

lemma strategyOutcome_from:
  assumes len: "length fs1 = length fs0"
    and same: "\<forall>j<length fs0. sameCore (fs1 ! j) (fs0 ! j)"
    and out: "strategyOutcome fname page fs1 wc d fs' wc' d'"
  shows "strategyOutcome fname page fs0 wc d fs' wc' d'"
proof -
  from out have l: "length fs' = length fs1" by (simp add: strategyOutcome_def)
  from out consider
      (keep) "\<forall>j<length fs1. sameCore (fs' ! j) (fs1 ! j)" "wc' = wc" "d' = d"
    | (evict) idx where "idx < length fs1" "accessCount (fs1 ! idx) = 0"
        "sameCore (fs' ! idx) page"
        "\<forall>j<length fs1. j \<noteq> idx \<longrightarrow> sameCore (fs' ! j) (fs1 ! j)"
        "(wc', d') = victimWrite fname (fs1 ! idx) wc d"
    by (auto simp: strategyOutcome_def)
  then show ?thesis
  proof cases
    case keep
    then have "\<forall>j<length fs0. sameCore (fs' ! j) (fs0 ! j)"
      using same len sameCore_trans by metis
    then show ?thesis using keep l len by (simp add: strategyOutcome_def)
  next
    case evict
    have a: "accessCount (fs0 ! idx) = 0"
      using evict(1,2) same len by (simp add: sameCore_def)
    have b: "\<forall>j<length fs0. j \<noteq> idx \<longrightarrow> sameCore (fs' ! j) (fs0 ! j)"
      using evict(4) same len sameCore_trans by metis
    have c: "(wc', d') = victimWrite fname (fs0 ! idx) wc d"
      using evict(5) victimWrite_cong [of "fs1 ! idx" "fs0 ! idx"] same len evict(1) by simp
    show ?thesis
      unfolding strategyOutcome_def using l len evict(1,3) a b c by auto
  qed
qed

lemma FIFO_loop_outcome:
  "frameIndex poolInfo < length (frames poolInfo) \<Longrightarrow>
   FIFO_loop k bm page poolInfo d = (p', d') \<Longrightarrow>
     strategyOutcome (pageFile bm) page (frames poolInfo) (writeCount poolInfo) d
        (frames p') (writeCount p') d'
     \<and> frameIndex p' < length (frames poolInfo)
     \<and> clockPointer p' = clockPointer poolInfo
     \<and> readCount p' = readCount poolInfo
     \<and> recentHitCount p' = recentHitCount poolInfo"
proof (induction k arbitrary: poolInfo)
  case 0
  then show ?case by (simp add: strategyOutcome_def)
next
  case (Suc k)
  let ?idx = "frameIndex poolInfo"
  let ?n = "length (frames poolInfo)"
  have pos: "0 < ?n" using Suc.prems(1) by (cases "frames poolInfo") simp_all
  show ?case
  proof (cases "accessCount (frames poolInfo ! ?idx) = 0")
    case False
    let ?p1 = "poolInfo\<lparr>frameIndex := (frameIndex poolInfo + 1) mod bufferSize poolInfo\<rparr>"
    have r: "FIFO_loop k bm page ?p1 d = (p', d')"
      using Suc.prems(2) False by (simp add: Let_def)
    have i: "frameIndex ?p1 < length (frames ?p1)" using pos by (simp add: bufferSize_def)
    from Suc.IH [OF i r] show ?thesis by simp
  next
    case True
    let ?vw = "victimWrite (pageFile bm) (frames poolInfo ! ?idx) (writeCount poolInfo) d"
    let ?fs' = "(frames poolInfo)[?idx := (frames poolInfo ! ?idx)
                        \<lparr>data := data page, pageNumber := pageNumber page,
                         dirtybit := dirtybit page, accessCount := accessCount page\<rparr>]"
    have r: "p' = poolInfo\<lparr>writeCount := fst ?vw, frames := ?fs',
                          frameIndex := (frameIndex poolInfo + 1) mod ?n\<rparr>" "d' = snd ?vw"
      using Suc.prems(2) True
      by (simp_all add: Let_def writeVictim_victimWrite bufferSize_def)
    have "strategyOutcome (pageFile bm) page (frames poolInfo) (writeCount poolInfo) d
            ?fs' (fst ?vw) (snd ?vw)"
      unfolding strategyOutcome_def
      using Suc.prems(1) True
      by (auto simp: sameCore_def intro!: exI [of _ ?idx])
    then show ?thesis using r pos by simp
  qed
qed

lemma CLOCK_loop_outcome:
  "clockPointer poolInfo < length (frames poolInfo) \<Longrightarrow>
   CLOCK_loop k bm page poolInfo d = (p', d') \<Longrightarrow>
     strategyOutcome (pageFile bm) page (frames poolInfo) (writeCount poolInfo) d
        (frames p') (writeCount p') d'
     \<and> clockPointer p' < length (frames poolInfo)
     \<and> frameIndex p' = frameIndex poolInfo
     \<and> readCount p' = readCount poolInfo
     \<and> recentHitCount p' = recentHitCount poolInfo"
proof (induction k arbitrary: poolInfo)
  case 0
  then show ?case by (simp add: strategyOutcome_def)
next
  case (Suc k)
  let ?idx = "clockPointer poolInfo"
  let ?n = "length (frames poolInfo)"
  have pos: "0 < ?n" using Suc.prems(1) by (cases "frames poolInfo") simp_all
  show ?case
  proof (cases "accessCount (frames poolInfo ! ?idx) = 0")
    case False
    let ?p1 = "poolInfo\<lparr>clockPointer := (clockPointer poolInfo + 1) mod bufferSize poolInfo\<rparr>"
    have r: "CLOCK_loop k bm page ?p1 d = (p', d')"
      using Suc.prems(2) False by (simp add: Let_def)
    have i: "clockPointer ?p1 < length (frames ?p1)" using pos by (simp add: bufferSize_def)
    from Suc.IH [OF i r] show ?thesis by simp
  next
    case True
    show ?thesis
    proof (cases "secondChance (frames poolInfo ! ?idx)")
      case sc: True
      let ?fs1 = "(frames poolInfo)[?idx := (frames poolInfo ! ?idx)\<lparr>secondChance := False\<rparr>]"
      let ?p1 = "poolInfo\<lparr>frames := ?fs1,
                   clockPointer := (clockPointer poolInfo + 1) mod bufferSize poolInfo\<rparr>"
      have r: "CLOCK_loop k bm page ?p1 d = (p', d')"
        using Suc.prems(2) True sc by (simp add: Let_def)
      have i: "clockPointer ?p1 < length (frames ?p1)" using pos by (simp add: bufferSize_def)
      from Suc.IH [OF i r] have ih:
        "strategyOutcome (pageFile bm) page ?fs1 (writeCount poolInfo) d
            (frames p') (writeCount p') d'"
        "clockPointer p' < ?n" "frameIndex p' = frameIndex poolInfo"
        "readCount p' = readCount poolInfo" "recentHitCount p' = recentHitCount poolInfo"
        by simp_all
      have same: "\<forall>j<?n. sameCore (?fs1 ! j) (frames poolInfo ! j)"
      proof (intro allI impI)
        fix j assume "j < ?n"
        then show "sameCore (?fs1 ! j) (frames poolInfo ! j)"
          using Suc.prems(1) by (cases "j = ?idx") (simp_all add: sameCore_def)
      qed
      have "strategyOutcome (pageFile bm) page (frames poolInfo) (writeCount poolInfo) d
            (frames p') (writeCount p') d'"
        by (rule strategyOutcome_from [OF _ same ih(1)]) simp
      then show ?thesis using ih by simp
    next
      case sc: False
      let ?vw = "victimWrite (pageFile bm) (frames poolInfo ! ?idx) (writeCount poolInfo) d"
      let ?fs' = "(frames poolInfo)[?idx := (frames poolInfo ! ?idx)
                        \<lparr>data := data page, pageNumber := pageNumber page,
                         dirtybit := dirtybit page, accessCount := accessCount page,
                         secondChance := False\<rparr>]"
      have r: "p' = poolInfo\<lparr>writeCount := fst ?vw, frames := ?fs',
                          clockPointer := (clockPointer poolInfo + 1) mod ?n\<rparr>" "d' = snd ?vw"
        using Suc.prems(2) True sc
        by (simp_all add: Let_def writeVictim_victimWrite bufferSize_def)
      have "strategyOutcome (pageFile bm) page (frames poolInfo) (writeCount poolInfo) d
            ?fs' (fst ?vw) (snd ?vw)"
        unfolding strategyOutcome_def
        using Suc.prems(1) True
        by (auto simp: sameCore_def intro!: exI [of _ ?idx])
      then show ?thesis using r pos by simp
    qed
  qed
qed

lemma LRU_scan_result:
  "LRU_scan fs i (r, l) = (r', l') \<Longrightarrow>
     r' = r \<or> (\<exists>j<length fs. r' = int (i + j) \<and> accessCount (fs ! j) = 0)"
proof (induction fs arbitrary: i r l)
  case Nil
  then show ?case by simp
next
  case (Cons f fs)
  show ?case
  proof (cases "accessCount f = 0 \<and> recentHit f < l")
    case True
    then have "LRU_scan fs (Suc i) (int i, recentHit f) = (r', l')"
      using Cons.prems by simp
    from Cons.IH [OF this] show ?thesis
    proof
      assume "r' = int i"
      then show ?thesis using True by (intro disjI2 exI [of _ 0]) simp
    next
      assume "\<exists>j<length fs. r' = int (Suc i + j) \<and> accessCount (fs ! j) = 0"
      then obtain j where "j < length fs" "r' = int (Suc i + j)" "accessCount (fs ! j) = 0"
        by blast
      then show ?thesis by (intro disjI2 exI [of _ "Suc j"]) simp
    qed
  next
    case False
    then have "LRU_scan fs (Suc i) (r, l) = (r', l')"
      using Cons.prems by auto
    from Cons.IH [OF this] show ?thesis
    proof
      assume "r' = r" then show ?thesis by simp
    next
      assume "\<exists>j<length fs. r' = int (Suc i + j) \<and> accessCount (fs ! j) = 0"
      then obtain j where "j < length fs" "r' = int (Suc i + j)" "accessCount (fs ! j) = 0"
        by blast
      then show ?thesis by (intro disjI2 exI [of _ "Suc j"]) simp
    qed
  qed
qed

lemma strategyOutcome_page:
  "sameCore page page' \<Longrightarrow> strategyOutcome fname page fs wc d fs' wc' d'
     \<Longrightarrow> strategyOutcome fname page' fs wc d fs' wc' d'"
proof -
  assume a: "sameCore page page'"
  have "\<And>f. sameCore f page = sameCore f page'"
    using a by (auto simp: sameCore_def)
  then show "strategyOutcome fname page fs wc d fs' wc' d'
     \<Longrightarrow> strategyOutcome fname page' fs wc d fs' wc' d'"
    by (simp add: strategyOutcome_def)
qed

lemma FIFO_outcome:
  assumes "mgmtData bm = Some poolInfo" "frameIndex poolInfo < length (frames poolInfo)"
    "clockPointer poolInfo < length (frames poolInfo)"
    and run: "FIFO bm page d = (bm', d')"
  shows "\<exists>p'. bm' = bm\<lparr>mgmtData := Some p'\<rparr>
           \<and> strategyOutcome (pageFile bm) page (frames poolInfo) (writeCount poolInfo) d
                (frames p') (writeCount p') d'
           \<and> frameIndex p' < length (frames poolInfo)
           \<and> clockPointer p' < length (frames poolInfo)
           \<and> readCount p' = readCount poolInfo
           \<and> recentHitCount p' = recentHitCount poolInfo"
proof -
  obtain p' where l: "FIFO_loop (bufferSize poolInfo) bm page poolInfo d = (p', d')"
      and b: "bm' = bm\<lparr>mgmtData := Some p'\<rparr>"
    using run assms(1) by (auto simp: FIFO_def split: prod.splits)
  from FIFO_loop_outcome [OF assms(2) l] assms(3) b show ?thesis by auto
qed

lemma CLOCK_outcome:
  assumes "mgmtData bm = Some poolInfo" "frameIndex poolInfo < length (frames poolInfo)"
    "clockPointer poolInfo < length (frames poolInfo)"
    and run: "CLOCK bm page d = (bm', d')"
  shows "\<exists>p'. bm' = bm\<lparr>mgmtData := Some p'\<rparr>
           \<and> strategyOutcome (pageFile bm) page (frames poolInfo) (writeCount poolInfo) d
                (frames p') (writeCount p') d'
           \<and> frameIndex p' < length (frames poolInfo)
           \<and> clockPointer p' < length (frames poolInfo)
           \<and> readCount p' = readCount poolInfo
           \<and> recentHitCount p' = recentHitCount poolInfo"
proof -
  obtain p' where l: "CLOCK_loop (bufferSize poolInfo * 2) bm page poolInfo d = (p', d')"
      and b: "bm' = bm\<lparr>mgmtData := Some p'\<rparr>"
    using run assms(1) by (auto simp: CLOCK_def split: prod.splits)
  from CLOCK_loop_outcome [OF assms(3) l] assms(2) b show ?thesis by auto
qed

lemma LRU_outcome:
  assumes "mgmtData bm = Some poolInfo" "frameIndex poolInfo < length (frames poolInfo)"
    "clockPointer poolInfo < length (frames poolInfo)"
    and run: "LRU bm page d = (bm', d')"
  shows "\<exists>p'. bm' = bm\<lparr>mgmtData := Some p'\<rparr>
           \<and> strategyOutcome (pageFile bm) page (frames poolInfo) (writeCount poolInfo) d
                (frames p') (writeCount p') d'
           \<and> frameIndex p' < length (frames poolInfo)
           \<and> clockPointer p' < length (frames poolInfo)
           \<and> readCount p' = readCount poolInfo
           \<and> recentHitCount p' = recentHitCount poolInfo"
proof -
  let ?fs = "frames poolInfo"
  obtain r l where sc: "LRU_scan ?fs 0 (- 1, recentHitCount poolInfo + 1) = (r, l)"
    by (metis surj_pair)
  from LRU_scan_result [OF sc]
  consider (none) "r = - 1" | (some) j where "j < length ?fs" "r = int j" "accessCount (?fs ! j) = 0"
    by auto
  then show ?thesis
  proof cases
    case none
    then have "bm' = bm" "d' = d" using run assms(1) sc by (simp_all add: LRU_def)
    moreover have "bm\<lparr>mgmtData := Some poolInfo\<rparr> = bm" using assms(1) by simp
    ultimately show ?thesis
      using assms(2,3) by (intro exI [of _ poolInfo]) (simp add: strategyOutcome_def)
  next
    case some
    let ?vw = "victimWrite (pageFile bm) (?fs ! j) (writeCount poolInfo) d"
    let ?fs' = "?fs[j := (?fs ! j)
                             \<lparr>data := data page, pageNumber := pageNumber page,
                              dirtybit := dirtybit page, accessCount := accessCount page,
                              recentHit := recentHit page\<rparr>]"
    let ?p' = "poolInfo\<lparr>writeCount := fst ?vw, frames := ?fs'\<rparr>"
    have r: "bm' = bm\<lparr>mgmtData := Some ?p'\<rparr>" "d' = snd ?vw"
      using run assms(1) sc some(2)
      by (simp_all add: LRU_def writeVictim_victimWrite)
    have "strategyOutcome (pageFile bm) page ?fs (writeCount poolInfo) d ?fs' (fst ?vw) (snd ?vw)"
      unfolding strategyOutcome_def
      using some(1,3)
      by (auto simp: sameCore_def intro!: exI [of _ j])
    then show ?thesis
      using r assms(2,3) by (intro exI [of _ ?p']) simp
  qed
qed

section \<open>\<^verbatim>\<open>pinPage\<close>, case by case\<close>

lemma loadPage_parts:
  assumes "loadPage fname bytes pnum d = (rcr, buf, d1)"
  shows "\<exists>rce fh1 fh2.
           ensureCapacity (int32 (pnum + 1)) (Some (openedHandle fname bytes)) d = (rce, fh1, d1)
         \<and> readBlock pnum fh1 mallocPage d1 = (rcr, fh2, buf)"
  using assms by (auto simp: loadPage_def split: prod.splits)

lemma pinPage_replace_char:
  assumes pool: "mgmtData b = Some poolInfo"
    and fi: "frameIndex poolInfo < length (frames poolInfo)"
    and cp: "clockPointer poolInfo < length (frames poolInfo)"
    and ld: "loadPage (pageFile b) bytes pnum d = (rcr, buf, d1)"
    and run: "pinPage_replace b poolInfo pg pnum (openedHandle (pageFile b) bytes) d
                = (r, b', pg', d')"
  shows "\<exists>p'. b' = b\<lparr>mgmtData := Some p'\<rparr>
           \<and> length (frames p') = length (frames poolInfo)
           \<and> frameIndex p' < length (frames poolInfo)
           \<and> clockPointer p' < length (frames poolInfo)
           \<and> (if rcr = RC_OK
               then r = (if strategy b = RS_OTHER then RC_ERROR else RC_OK)
                    \<and> readCount p' = readCount poolInfo + 1
                    \<and> strategyOutcome (pageFile b) (loadedFrame buf pnum)
                         (frames poolInfo) (writeCount poolInfo) d1
                         (frames p') (writeCount p') d'
               else r = RC_READ_NON_EXISTING_PAGE \<and> p' = poolInfo \<and> d' = d1)"
proof -
  from loadPage_parts [OF ld] obtain rce fh1 fh2 where
    ens: "ensureCapacity (int32 (pnum + 1)) (Some (openedHandle (pageFile b) bytes)) d
            = (rce, fh1, d1)"
    and rd: "readBlock pnum fh1 mallocPage d1 = (rcr, fh2, buf)" by blast
  show ?thesis
  proof (cases "rcr = RC_OK")
    case False
    then have "r = RC_READ_NON_EXISTING_PAGE" "b' = b" "d' = d1"
      using run by (auto simp: pinPage_replace_def ens rd)
    moreover have "b\<lparr>mgmtData := Some poolInfo\<rparr> = b" using pool by simp
    ultimately show ?thesis
      using False fi cp by (intro exI [of _ poolInfo]) simp
  next
    case True
    let ?hits = "recentHitCount poolInfo + 1"
    let ?nf = "\<lparr>data = buf, pageNumber = pnum, dirtybit = False, accessCount = 1,
                secondChance = False,
                recentHit = (if strategy b = RS_LRU then ?hits else 0), index = 0\<rparr>"
    let ?p1 = "poolInfo\<lparr>readCount := readCount poolInfo + 1, recentHitCount := ?hits\<rparr>"
    let ?b1 = "b\<lparr>mgmtData := Some ?p1\<rparr>"
    have sc: "sameCore ?nf (loadedFrame buf pnum)"
      by (simp add: sameCore_def loadedFrame_def)
    have m1: "mgmtData ?b1 = Some ?p1" by simp
    have c1: "frameIndex ?p1 < length (frames ?p1)" "clockPointer ?p1 < length (frames ?p1)"
      using fi cp by simp_all
    have unf: "pinPage_replace b poolInfo pg pnum (openedHandle (pageFile b) bytes) d =
                 (case strategy b of
                    RS_FIFO \<Rightarrow>
                      (case FIFO ?b1 ?nf d1 of
                         (b2, d2) \<Rightarrow> (RC_OK, b2, \<lparr>pageNum = pnum, hdata = buf\<rparr>, d2))
                  | RS_LRU \<Rightarrow>
                      (case LRU ?b1 ?nf d1 of
                         (b2, d2) \<Rightarrow> (RC_OK, b2, \<lparr>pageNum = pnum, hdata = buf\<rparr>, d2))
                  | RS_CLOCK \<Rightarrow>
                      (case CLOCK ?b1 ?nf d1 of
                         (b2, d2) \<Rightarrow> (RC_OK, b2, \<lparr>pageNum = pnum, hdata = buf\<rparr>, d2))
                  | RS_OTHER \<Rightarrow> (RC_ERROR, ?b1, \<lparr>pageNum = pnum, hdata = buf\<rparr>, d1))"
      using True by (simp add: pinPage_replace_def ens rd Let_def)
    let ?goal = ?thesis
    have fin: "\<And>b2 d2. \<exists>p'. b2 = ?b1\<lparr>mgmtData := Some p'\<rparr>
             \<and> strategyOutcome (pageFile ?b1) ?nf (frames ?p1) (writeCount ?p1) d1
                  (frames p') (writeCount p') d2
             \<and> frameIndex p' < length (frames ?p1)
             \<and> clockPointer p' < length (frames ?p1)
             \<and> readCount p' = readCount ?p1
             \<and> recentHitCount p' = recentHitCount ?p1
           \<Longrightarrow> r = (if strategy b = RS_OTHER then RC_ERROR else RC_OK) \<Longrightarrow> b' = b2 \<Longrightarrow> d' = d2
           \<Longrightarrow> ?goal"
    proof -
      fix b2 d2
      assume "\<exists>p'. b2 = ?b1\<lparr>mgmtData := Some p'\<rparr>
             \<and> strategyOutcome (pageFile ?b1) ?nf (frames ?p1) (writeCount ?p1) d1
                  (frames p') (writeCount p') d2
             \<and> frameIndex p' < length (frames ?p1)
             \<and> clockPointer p' < length (frames ?p1)
             \<and> readCount p' = readCount ?p1
             \<and> recentHitCount p' = recentHitCount ?p1"
        and rr: "r = (if strategy b = RS_OTHER then RC_ERROR else RC_OK)" "b' = b2" "d' = d2"
      then obtain p' where p': "b2 = ?b1\<lparr>mgmtData := Some p'\<rparr>"
          "strategyOutcome (pageFile ?b1) ?nf (frames ?p1) (writeCount ?p1) d1
                  (frames p') (writeCount p') d2"
          "frameIndex p' < length (frames ?p1)" "clockPointer p' < length (frames ?p1)"
          "readCount p' = readCount ?p1"
        by blast
      have so: "strategyOutcome (pageFile b) (loadedFrame buf pnum) (frames poolInfo)
                  (writeCount poolInfo) d1 (frames p') (writeCount p') d2"
        using strategyOutcome_page [OF sc p'(2)] by simp
      then have len: "length (frames p') = length (frames poolInfo)"
        by (simp add: strategyOutcome_def)
      show ?goal
        using True p'(1,3,4,5) so len rr
        by (intro exI [of _ p']) simp
    qed
    show ?thesis
    proof (cases "strategy b")
      case RS_FIFO
      obtain b2 d2 where s: "FIFO ?b1 ?nf d1 = (b2, d2)" by (metis surj_pair)
      have "r = RC_OK" "b' = b2" "d' = d2" using run unf RS_FIFO s by simp_all
      with fin [OF FIFO_outcome [OF m1 c1 s]] RS_FIFO show ?thesis by simp
    next
      case RS_LRU
      obtain b2 d2 where s: "LRU ?b1 ?nf d1 = (b2, d2)" by (metis surj_pair)
      have "r = RC_OK" "b' = b2" "d' = d2" using run unf RS_LRU s by simp_all
      with fin [OF LRU_outcome [OF m1 c1 s]] RS_LRU show ?thesis by simp
    next
      case RS_CLOCK
      obtain b2 d2 where s: "CLOCK ?b1 ?nf d1 = (b2, d2)" by (metis surj_pair)
      have "r = RC_OK" "b' = b2" "d' = d2" using run unf RS_CLOCK s by simp_all
      with fin [OF CLOCK_outcome [OF m1 c1 s]] RS_CLOCK show ?thesis by simp
    next
      case RS_OTHER
      have rr: "r = RC_ERROR" "b' = ?b1" "d' = d1" using run unf RS_OTHER by simp_all
      have "strategyOutcome (pageFile b) (loadedFrame buf pnum) (frames poolInfo)
                  (writeCount poolInfo) d1 (frames ?p1) (writeCount ?p1) d1"
        by (simp add: strategyOutcome_def)
      then show ?thesis
        using True rr RS_OTHER fi cp by (intro exI [of _ ?p1]) simp
    qed
  qed
qed

lemma pinPage_empty_char:
  assumes pool: "mgmtData b = Some poolInfo"
    and i: "i < length (frames poolInfo)"
    and ld: "loadPage (pageFile b) bytes pnum d = (rcr, buf, d1)"
    and run: "pinPage_empty b poolInfo pg pnum i (openedHandle (pageFile b) bytes) d
                = (r, b', pg', d')"
  shows "\<exists>p'. b' = b\<lparr>mgmtData := Some p'\<rparr>
           \<and> length (frames p') = length (frames poolInfo)
           \<and> frameIndex p' = frameIndex poolInfo
           \<and> clockPointer p' = clockPointer poolInfo
           \<and> d' = d1
           \<and> writeCount p' = writeCount poolInfo
           \<and> (\<forall>j<length (frames poolInfo). j \<noteq> i \<longrightarrow> frames p' ! j = frames poolInfo ! j)
           \<and> (if rcr = RC_OK
               then r = RC_OK
                    \<and> readCount p' = readCount poolInfo + 1
                    \<and> sameCore (frames p' ! i) (loadedFrame buf pnum)
               else r = RC_READ_NON_EXISTING_PAGE
                    \<and> readCount p' = readCount poolInfo
                    \<and> frames p' ! i = (frames poolInfo ! i)\<lparr>data := None\<rparr>)"
proof -
  from loadPage_parts [OF ld] obtain rce fh1 fh2 where
    ens: "ensureCapacity (int32 (pnum + 1)) (Some (openedHandle (pageFile b) bytes)) d
            = (rce, fh1, d1)"
    and rd: "readBlock pnum fh1 mallocPage d1 = (rcr, fh2, buf)" by blast
  show ?thesis
  proof (cases "rcr = RC_OK")
    case False
    let ?p' = "poolInfo\<lparr>frames := (frames poolInfo)[i := (frames poolInfo ! i)\<lparr>data := None\<rparr>]\<rparr>"
    have "r = RC_READ_NON_EXISTING_PAGE" "b' = b\<lparr>mgmtData := Some ?p'\<rparr>" "d' = d1"
      using run False by (auto simp: pinPage_empty_def ens rd)
    then show ?thesis
      using False i by (intro exI [of _ ?p']) simp
  next
    case True
    let ?hits = "recentHitCount poolInfo + 1"
    let ?f1 = "(frames poolInfo ! i)
                 \<lparr>data := buf, pageNumber := pnum, accessCount := 1,
                  dirtybit := False, index := 0\<rparr>"
    let ?f2 = "(if strategy b = RS_CLOCK then ?f1\<lparr>secondChance := False\<rparr>
               else if strategy b = RS_LRU then ?f1\<lparr>recentHit := ?hits\<rparr>
               else ?f1)"
    let ?p' = "poolInfo\<lparr>frames := (frames poolInfo)[i := ?f2],
                 readCount := readCount poolInfo + 1, recentHitCount := ?hits\<rparr>"
    have "r = RC_OK" "b' = b\<lparr>mgmtData := Some ?p'\<rparr>" "d' = d1"
      using run True by (auto simp: pinPage_empty_def ens rd Let_def)
    moreover have "sameCore ?f2 (loadedFrame buf pnum)"
      by (simp add: sameCore_def loadedFrame_def)
    ultimately show ?thesis
      using True i by (intro exI [of _ ?p']) simp
  qed
qed

lemma pinPage_hit_char:
  assumes i: "i < length (frames poolInfo)"
    and run: "pinPage_hit b poolInfo pnum i = (b', pg')"
  shows "\<exists>p'. b' = b\<lparr>mgmtData := Some p'\<rparr>
           \<and> length (frames p') = length (frames poolInfo)
           \<and> frameIndex p' = frameIndex poolInfo
           \<and> clockPointer p' = clockPointer poolInfo
           \<and> readCount p' = readCount poolInfo \<and> writeCount p' = writeCount poolInfo
           \<and> (\<forall>j<length (frames poolInfo).
                     data (frames p' ! j) = data (frames poolInfo ! j)
                     \<and> pageNumber (frames p' ! j) = pageNumber (frames poolInfo ! j)
                     \<and> dirtybit (frames p' ! j) = dirtybit (frames poolInfo ! j)
                     \<and> accessCount (frames p' ! j) =
                         (if j = i then accessCount (frames poolInfo ! j) + 1
                          else accessCount (frames poolInfo ! j)))"
proof -
  let ?f = "frames poolInfo ! i"
  let ?hits = "recentHitCount poolInfo + 1"
  let ?f1 = "?f\<lparr>accessCount := accessCount ?f + 1\<rparr>"
  let ?f2 = "(if strategy b = RS_CLOCK then ?f1\<lparr>secondChance := True\<rparr>
                else if strategy b = RS_LRU then ?f1\<lparr>recentHit := ?hits\<rparr>
                else ?f1)"
  let ?p' = "poolInfo\<lparr>frames := (frames poolInfo)[i := ?f2], recentHitCount := ?hits\<rparr>"
  have b': "b' = b\<lparr>mgmtData := Some ?p'\<rparr>"
    using run by (auto simp: pinPage_hit_def Let_def)
  have core: "data ?f2 = data ?f" "pageNumber ?f2 = pageNumber ?f" "dirtybit ?f2 = dirtybit ?f"
    "accessCount ?f2 = accessCount ?f + 1"
    by simp_all
  have "\<forall>j<length (frames poolInfo).
                     data (frames ?p' ! j) = data (frames poolInfo ! j)
                     \<and> pageNumber (frames ?p' ! j) = pageNumber (frames poolInfo ! j)
                     \<and> dirtybit (frames ?p' ! j) = dirtybit (frames poolInfo ! j)
                     \<and> accessCount (frames ?p' ! j) =
                         (if j = i then accessCount (frames poolInfo ! j) + 1
                          else accessCount (frames poolInfo ! j))"
  proof (intro allI impI)
    fix j assume "j < length (frames poolInfo)"
    then show "data (frames ?p' ! j) = data (frames poolInfo ! j)
                     \<and> pageNumber (frames ?p' ! j) = pageNumber (frames poolInfo ! j)
                     \<and> dirtybit (frames ?p' ! j) = dirtybit (frames poolInfo ! j)
                     \<and> accessCount (frames ?p' ! j) =
                         (if j = i then accessCount (frames poolInfo ! j) + 1
                          else accessCount (frames poolInfo ! j))"
      using i core by (cases "j = i") (simp_all del: split_paired_All)
  qed
  then show ?thesis
    using b' by (intro exI [of _ ?p']) simp
qed

lemma pinPage_outcome:
  assumes pool: "mgmtData b = Some poolInfo"
    and fi: "frameIndex poolInfo < length (frames poolInfo)"
    and cp: "clockPointer poolInfo < length (frames poolInfo)"
    and run: "pinPage (Some b) (Some pg) pnum d = (rc, bm', pg', d')"
  shows "\<exists>p'. bm' = Some (b\<lparr>mgmtData := Some p'\<rparr>)
           \<and> length (frames p') = length (frames poolInfo)
           \<and> frameIndex p' < length (frames poolInfo)
           \<and> clockPointer p' < length (frames poolInfo)
           \<and> pinOutcome b poolInfo pnum d rc p' d'"
proof (cases "d (pageFile b)")
  case None
  then have "rc = RC_FILE_NOT_FOUND" "bm' = Some b" "d' = d"
    using run pool by (auto simp: pinPage_def openPageFile_def)
  moreover have "b\<lparr>mgmtData := Some poolInfo\<rparr> = b" using pool by simp
  ultimately show ?thesis
    using None fi cp by (intro exI [of _ poolInfo]) (simp add: pinOutcome_def)
next
  case (Some bytes)
  note op = openPageFile_opened [where d = d, OF Some]
  show ?thesis
  proof (cases "findFrame pnum (frames poolInfo)")
    case hit: (Some i)
    note ff = findFrame_Some [OF hit]
    obtain b1 pg1 where h: "pinPage_hit b poolInfo pnum i = (b1, pg1)" by (metis surj_pair)
    have r: "rc = RC_OK" "bm' = Some b1" "d' = d"
      using run pool op hit h by (auto simp: pinPage_def)
    from pinPage_hit_char [OF _ h] ff obtain p' where p': "b1 = b\<lparr>mgmtData := Some p'\<rparr>"
        "length (frames p') = length (frames poolInfo)"
        "frameIndex p' = frameIndex poolInfo" "clockPointer p' = clockPointer poolInfo"
        "readCount p' = readCount poolInfo \<and> writeCount p' = writeCount poolInfo
           \<and> (\<forall>j<length (frames poolInfo).
                     data (frames p' ! j) = data (frames poolInfo ! j)
                     \<and> pageNumber (frames p' ! j) = pageNumber (frames poolInfo ! j)
                     \<and> dirtybit (frames p' ! j) = dirtybit (frames poolInfo ! j)
                     \<and> accessCount (frames p' ! j) =
                         (if j = i then accessCount (frames poolInfo ! j) + 1
                          else accessCount (frames poolInfo ! j)))"
      by blast
    show ?thesis
      using r p' fi cp Some hit
      by (intro exI [of _ p']) (simp add: pinOutcome_def)
  next
    case miss: None
    obtain rcr buf d1 where ld: "loadPage (pageFile b) bytes pnum d = (rcr, buf, d1)"
      by (metis prod_cases3)
    show ?thesis
    proof (cases "findFrame NO_PAGE (frames poolInfo)")
      case empty: (Some i)
      note ff = findFrame_Some [OF empty]
      obtain r1 b1 pg1 d2 where e:
        "pinPage_empty b poolInfo pg pnum i (openedHandle (pageFile b) bytes) d = (r1, b1, pg1, d2)"
        by (metis prod_cases4)
      have r: "rc = r1" "bm' = Some b1" "d' = d2"
        using run pool op miss empty e by (auto simp: pinPage_def)
      from pinPage_empty_char [OF pool _ ld e] ff obtain p' where p':
         "b1 = b\<lparr>mgmtData := Some p'\<rparr>"
         "length (frames p') = length (frames poolInfo)"
         "frameIndex p' = frameIndex poolInfo" "clockPointer p' = clockPointer poolInfo"
         "d2 = d1
           \<and> writeCount p' = writeCount poolInfo
           \<and> (\<forall>j<length (frames poolInfo). j \<noteq> i \<longrightarrow> frames p' ! j = frames poolInfo ! j)
           \<and> (if rcr = RC_OK
               then r1 = RC_OK
                    \<and> readCount p' = readCount poolInfo + 1
                    \<and> sameCore (frames p' ! i) (loadedFrame buf pnum)
               else r1 = RC_READ_NON_EXISTING_PAGE
                    \<and> readCount p' = readCount poolInfo
                    \<and> frames p' ! i = (frames poolInfo ! i)\<lparr>data := None\<rparr>)"
        by blast
      show ?thesis
        using r p' fi cp Some miss empty ld
        by (intro exI [of _ p']) (simp add: pinOutcome_def)
    next
      case full: None
      obtain r1 b1 pg1 d2 where e:
        "pinPage_replace b poolInfo pg pnum (openedHandle (pageFile b) bytes) d = (r1, b1, pg1, d2)"
        by (metis prod_cases4)
      have r: "rc = r1" "bm' = Some b1" "d' = d2"
        using run pool op miss full e by (auto simp: pinPage_def)
      from pinPage_replace_char [OF pool fi cp ld e] obtain p' where p':
         "b1 = b\<lparr>mgmtData := Some p'\<rparr>"
         "length (frames p') = length (frames poolInfo)"
         "frameIndex p' < length (frames poolInfo)" "clockPointer p' < length (frames poolInfo)"
         "(if rcr = RC_OK
               then r1 = (if strategy b = RS_OTHER then RC_ERROR else RC_OK)
                    \<and> readCount p' = readCount poolInfo + 1
                    \<and> strategyOutcome (pageFile b) (loadedFrame buf pnum)
                         (frames poolInfo) (writeCount poolInfo) d1
                         (frames p') (writeCount p') d2
               else r1 = RC_READ_NON_EXISTING_PAGE \<and> p' = poolInfo \<and> d2 = d1)"
        by blast
      show ?thesis
        using r p' Some miss full ld
        by (intro exI [of _ p']) (simp add: pinOutcome_def)
    qed
  qed
qed

section \<open>The invariant of the reachable states\<close>

lemma poolInv_frames:
  assumes "poolInv b" "mgmtData b = Some poolInfo" "length fs' = length (frames poolInfo)"
  shows "poolInv (b\<lparr>mgmtData := Some (poolInfo\<lparr>frames := fs', writeCount := wc\<rparr>)\<rparr>)"
proof -
  have inv: "frames poolInfo \<noteq> []" "frameIndex poolInfo < length (frames poolInfo)"
    "clockPointer poolInfo < length (frames poolInfo)"
    using assms(1,2) by (simp_all add: poolInv_def)
  have "fs' \<noteq> []" using inv(1) assms(3) by (metis length_0_conv)
  then show ?thesis using inv(2,3) assms(3) by (simp add: poolInv_def)
qed

lemma poolInv_frames':
  assumes "poolInv b" "mgmtData b = Some poolInfo" "length fs' = length (frames poolInfo)"
  shows "poolInv (b\<lparr>mgmtData := Some (poolInfo\<lparr>frames := fs'\<rparr>)\<rparr>)"
  using poolInv_frames [OF assms, of "writeCount poolInfo"] by simp

lemma poolInv_pin:
  assumes inv: "poolInv b"
    and run: "pinPage (Some b) (Some pg) pnum d = (rc, Some b', pg', d')"
  shows "poolInv b'"
proof (cases "mgmtData b")
  case None
  then have "b' = b" using run by (simp add: pinPage_def)
  then show ?thesis using inv by simp
next
  case (Some poolInfo)
  let ?fs = "frames poolInfo"
  have ne: "?fs \<noteq> []" and fi: "frameIndex poolInfo < length ?fs"
    and cp: "clockPointer poolInfo < length ?fs"
    using inv Some by (simp_all add: poolInv_def)
  from pinPage_outcome [OF Some fi cp run] obtain p' where p':
      "b' = b\<lparr>mgmtData := Some p'\<rparr>" "length (frames p') = length ?fs"
      "frameIndex p' < length ?fs" "clockPointer p' < length ?fs"
    by auto
  have "frames p' \<noteq> []" using ne p'(2) by (metis length_0_conv)
  then show ?thesis using p' by (simp add: poolInv_def)
qed

lemma poolInv_init:
  "initBufferPool (Some b0) (Some fname) n strat = (RC_OK, Some b) \<Longrightarrow> poolInv b"
  by (auto simp: initBufferPool_def poolInv_def Let_def split: if_splits)

lemma poolInv_unpin:
  assumes "poolInv b" "unpinPage (Some b) (Some pg) d = (rc, Some b', d')"
  shows "poolInv b'"
proof (cases "mgmtData b")
  case None
  then show ?thesis using assms by (auto simp: unpinPage_def)
next
  case (Some poolInfo)
  from unpinPage_result [OF Some, of pg d] obtain fs' where
    "unpinPage (Some b) (Some pg) d =
        (RC_OK, Some (b\<lparr>mgmtData := Some (poolInfo\<lparr>frames := fs'\<rparr>)\<rparr>), d)"
    "length fs' = length (frames poolInfo)" by blast
  then show ?thesis
    using assms poolInv_frames' [OF assms(1) Some] by auto
qed

lemma poolInv_dirty:
  assumes "poolInv b" "markDirty (Some b) (Some pg) d = (rc, Some b', d')"
  shows "poolInv b'"
proof (cases "mgmtData b")
  case None
  then show ?thesis using assms by (auto simp: markDirty_def)
next
  case (Some poolInfo)
  show ?thesis
  proof (cases "findFrame (pageNum pg) (frames poolInfo)")
    case None
    then show ?thesis using assms Some by (auto simp: markDirty_def)
  next
    case fr: (Some i)
    let ?fs' = "(frames poolInfo)[i := (frames poolInfo ! i)\<lparr>dirtybit := True\<rparr>]"
    have "b' = b\<lparr>mgmtData := Some (poolInfo\<lparr>frames := ?fs'\<rparr>)\<rparr>"
      using assms(2) Some fr by (auto simp: markDirty_def)
    then show ?thesis using poolInv_frames' [OF assms(1) Some, of ?fs'] by simp
  qed
qed

lemma poolInv_force:
  assumes "poolInv b" "forcePage (Some b) (Some pg) d = (rc, Some b', d')"
  shows "poolInv b'"
proof (cases "mgmtData b")
  case None
  then show ?thesis using assms by (auto simp: forcePage_def)
next
  case (Some poolInfo)
  show ?thesis
  proof (cases "findFrame (pageNum pg) (frames poolInfo)")
    case None
    then have "b' = b" using assms(2) Some
      by (auto simp: forcePage_def split: prod.splits if_splits)
    then show ?thesis using assms(1) by simp
  next
    case fr: (Some i)
    let ?fs' = "(frames poolInfo)[i := (frames poolInfo ! i)\<lparr>dirtybit := False\<rparr>]"
    have "b' = b \<or> b' = b\<lparr>mgmtData := Some (poolInfo\<lparr>frames := ?fs',
                     writeCount := writeCount poolInfo + 1\<rparr>)\<rparr>"
      using assms(2) Some fr by (auto simp: forcePage_def split: prod.splits if_splits)
    then show ?thesis
      using assms(1) poolInv_frames [OF assms(1) Some, of ?fs' "writeCount poolInfo + 1"]
      by auto
  qed
qed

lemma forceFlushPool_loop_length:
  "forceFlushPool_loop fs wc fh d = (rc, fs', wc', fh', d') \<Longrightarrow> length fs' = length fs"
  using forceFlushPool_loop_spec [of fs wc fh d] by auto

lemma poolInv_flush:
  assumes "poolInv b" "forceFlushPool (Some b) d = (rc, Some b', d')"
  shows "poolInv b'"
proof (cases "mgmtData b")
  case None
  then show ?thesis using assms by (auto simp: forceFlushPool_def)
next
  case (Some poolInfo)
  show ?thesis
  proof (cases "d (pageFile b)")
    case None
    then show ?thesis using assms Some by (auto simp: forceFlushPool_def openPageFile_def)
  next
    case fl: (Some bytes)
    note op = openPageFile_opened [where d = d, OF fl]
    obtain rc1 fs1 wc1 fh1 d1 where l:
      "forceFlushPool_loop (frames poolInfo) (writeCount poolInfo)
          (Some (openedHandle (pageFile b) bytes)) d = (rc1, fs1, wc1, fh1, d1)"
      by (metis prod_cases5)
    have r: "b' = b\<lparr>mgmtData := Some (poolInfo\<lparr>frames := fs1, writeCount := wc1\<rparr>)\<rparr>"
      using assms(2) Some op l by (auto simp: forceFlushPool_def)
    from poolInv_frames [OF assms(1) Some forceFlushPool_loop_length [OF l]] r
    show ?thesis by simp
  qed
qed

lemma poolInv_shutdown:
  assumes "poolInv b" "shutdownBufferPool (Some b) d = (rc, Some b', d')"
  shows "poolInv b'"
proof (cases "mgmtData b")
  case None
  then show ?thesis using assms by (auto simp: shutdownBufferPool_def)
next
  case (Some poolInfo)
  obtain r1 bm1 d1 where f: "forceFlushPool (Some b) d = (r1, bm1, d1)" by (metis prod_cases3)
  show ?thesis
  proof (cases bm1)
    case None
    then show ?thesis using assms(2) Some f
      by (auto simp: shutdownBufferPool_def split: if_splits)
  next
    case b1: (Some b1)
    have i1: "poolInv b1" using poolInv_flush [OF assms(1)] f b1 by simp
    have "b' = b1 \<or> b' = b1\<lparr>mgmtData := None\<rparr>"
      using assms(2) Some f b1
      by (auto simp: shutdownBufferPool_def split: if_splits option.splits)
    then show ?thesis using i1 by (auto simp: poolInv_def)
  qed
qed

lemma reachable_poolInv: "reachable b d \<Longrightarrow> poolInv b"
proof (induction rule: reachable.induct)
  case (r_init b0 fname n strat b d)
  then show ?case by (rule poolInv_init)
next
  case (r_pin b d pg pnum rc b' pg' d')
  show ?case by (rule poolInv_pin [OF r_pin.IH r_pin.hyps(2)])
next
  case (r_unpin b d pg rc b' d')
  show ?case by (rule poolInv_unpin [OF r_unpin.IH r_unpin.hyps(2)])
next
  case (r_dirty b d pg rc b' d')
  show ?case by (rule poolInv_dirty [OF r_dirty.IH r_dirty.hyps(2)])
next
  case (r_force b d pg rc b' d')
  show ?case by (rule poolInv_force [OF r_force.IH r_force.hyps(2)])
next
  case (r_flush b d rc b' d')
  show ?case by (rule poolInv_flush [OF r_flush.IH r_flush.hyps(2)])
next
  case (r_shutdown b d rc b' d')
  show ?case by (rule poolInv_shutdown [OF r_shutdown.IH r_shutdown.hyps(2)])
next
  case (r_write b d poolInfo i buf)
  show ?case
    using poolInv_frames' [OF r_write.IH r_write.hyps(2),
        of "(frames poolInfo)[i := (frames poolInfo ! i)\<lparr>data := Some buf\<rparr>]"]
    by simp
qed

section \<open>Eviction\<close>

lemma pinPage_frames:
  assumes reach: "reachable b d" and pool: "mgmtData b = Some poolInfo"
    and run: "pinPage (Some b) (Some pg) pnum d = (rc, bm', pg', d')"
  shows "\<exists>p'. bm' = Some (b\<lparr>mgmtData := Some p'\<rparr>)
           \<and> length (frames p') = length (frames poolInfo)
           \<and> poolFrames bm' = frames p'
           \<and> getNumWriteIO bm' = writeCount p'
           \<and> pinOutcome b poolInfo pnum d rc p' d'"
proof -
  have inv: "poolInv b" using reach by (rule reachable_poolInv)
  then have c: "frameIndex poolInfo < length (frames poolInfo)"
    "clockPointer poolInfo < length (frames poolInfo)"
    using pool by (simp_all add: poolInv_def)
  from pinPage_outcome [OF pool c(1,2) run] obtain p' where
    "bm' = Some (b\<lparr>mgmtData := Some p'\<rparr>)" "length (frames p') = length (frames poolInfo)"
    "pinOutcome b poolInfo pnum d rc p' d'" by blast
  then show ?thesis
    by (intro exI [of _ p']) (simp add: poolFrames_def getNumWriteIO_def)
qed

text \<open>What a \<^verbatim>\<open>pinPage\<close> does to a frame that holds a page: either the frame keeps
  buffer, page number and dirty flag, or it had no pin and is the one victim, which
  then holds the requested page.\<close>

lemma pinPage_frame_fate:
  assumes out: "pinOutcome b poolInfo pnum d rc p' d'"
    and len: "length (frames p') = length (frames poolInfo)"
    and i: "i < length (frames poolInfo)"
    and res: "pageNumber (frames poolInfo ! i) \<noteq> NO_PAGE"
  shows "(data (frames p' ! i) = data (frames poolInfo ! i)
          \<and> pageNumber (frames p' ! i) = pageNumber (frames poolInfo ! i)
          \<and> dirtybit (frames p' ! i) = dirtybit (frames poolInfo ! i))
       \<or> (accessCount (frames poolInfo ! i) = 0
          \<and> pageNumber (frames p' ! i) = pnum
          \<and> pnum \<notin> pageNumber ` set (frames poolInfo))"
proof (cases "d (pageFile b)")
  case None
  then show ?thesis using out by (simp add: pinOutcome_def)
next
  case fl: (Some bytes)
  let ?fs = "frames poolInfo"
  show ?thesis
  proof (cases "findFrame pnum ?fs")
    case hit: (Some k)
    then show ?thesis using out fl i by (simp add: pinOutcome_def)
  next
    case miss: None
    then have nr: "pnum \<notin> pageNumber ` set ?fs" by (simp add: findFrame_None)
    obtain rcr buf d1 where ld: "loadPage (pageFile b) bytes pnum d = (rcr, buf, d1)"
      by (metis prod_cases3)
    show ?thesis
    proof (cases "findFrame NO_PAGE ?fs")
      case empty: (Some k)
      note ff = findFrame_Some [OF empty]
      then have "i \<noteq> k" using res by auto
      then show ?thesis using out fl miss empty i ld by (simp add: pinOutcome_def)
    next
      case full: None
      show ?thesis
      proof (cases "rcr = RC_OK")
        case False
        then show ?thesis using out fl miss full ld by (simp add: pinOutcome_def)
      next
        case True
        then have so: "strategyOutcome (pageFile b) (loadedFrame buf pnum)
                         ?fs (writeCount poolInfo) d1 (frames p') (writeCount p') d'"
          using out fl miss full ld by (simp add: pinOutcome_def)
        then consider
            (keep) "\<forall>j<length ?fs. sameCore (frames p' ! j) (?fs ! j)"
          | (evict) idx where "idx < length ?fs" "accessCount (?fs ! idx) = 0"
              "sameCore (frames p' ! idx) (loadedFrame buf pnum)"
              "\<forall>j<length ?fs. j \<noteq> idx \<longrightarrow> sameCore (frames p' ! j) (?fs ! j)"
          by (auto simp: strategyOutcome_def)
        then show ?thesis
        proof cases
          case keep
          then show ?thesis using i by (simp add: sameCore_def)
        next
          case evict
          show ?thesis
          proof (cases "i = idx")
            case False
            then show ?thesis using evict(4) i by (simp add: sameCore_def)
          next
            case True
            have "pageNumber (frames p' ! i) = pnum"
              using evict(3) True by (simp add: sameCore_def loadedFrame_def)
            then show ?thesis using evict(2) True nr by simp
          qed
        qed
      qed
    qed
  qed
qed

section \<open>Single steps on a page file of whole pages\<close>

lemma pinPage_cold_step:
  assumes pool: "mgmtData b = Some poolInfo"
    and fl: "d (pageFile b) = Some bytes"
    and al: "length bytes mod PAGE_SIZE = 0"
    and p: "0 \<le> pnum"
    and bd: "pnum * int PAGE_SIZE < 2 ^ 31"
    and miss: "findFrame pnum (frames poolInfo) = None"
    and empty: "findFrame NO_PAGE (frames poolInfo) = Some i"
  shows "pinPage (Some b) (Some pg) pnum d =
           (RC_OK,
            Some (b\<lparr>mgmtData := Some (poolInfo
               \<lparr>frames := (frames poolInfo)[i :=
                   (let f1 = (frames poolInfo ! i)
                          \<lparr>data := Some (freadAt (PAGE_SIZE * nat pnum) PAGE_SIZE
                                           (grown (pnum + 1) bytes)),
                           pageNumber := pnum, accessCount := 1, dirtybit := False,
                           index := 0\<rparr>
                    in if strategy b = RS_CLOCK then f1\<lparr>secondChance := False\<rparr>
                       else if strategy b = RS_LRU
                       then f1\<lparr>recentHit := recentHitCount poolInfo + 1\<rparr>
                       else f1)],
                readCount := readCount poolInfo + 1,
                recentHitCount := recentHitCount poolInfo + 1\<rparr>)\<rparr>),
            Some \<lparr>pageNum = pnum,
                  hdata = Some (freadAt (PAGE_SIZE * nat pnum) PAGE_SIZE
                                  (grown (pnum + 1) bytes))\<rparr>,
            d(pageFile b \<mapsto> grown (pnum + 1) bytes))"
proof -
  note ld = loadPage_ok [where d = d, OF fl al p bd]
  from loadPage_parts [OF ld] obtain rce fh1 fh2 where
    ens: "ensureCapacity (int32 (pnum + 1)) (Some (openedHandle (pageFile b) bytes)) d
            = (rce, fh1, d(pageFile b \<mapsto> grown (pnum + 1) bytes))"
    and rd: "readBlock pnum fh1 mallocPage (d(pageFile b \<mapsto> grown (pnum + 1) bytes))
            = (RC_OK, fh2,
               Some (freadAt (PAGE_SIZE * nat pnum) PAGE_SIZE (grown (pnum + 1) bytes)))"
    by blast
  show ?thesis
    using pool miss empty openPageFile_opened [where d = d, OF fl]
    by (simp add: pinPage_def pinPage_empty_def ens rd Let_def)
qed

lemma pinPage_replace_step:
  assumes pool: "mgmtData b = Some poolInfo"
    and fl: "d (pageFile b) = Some bytes"
    and al: "length bytes mod PAGE_SIZE = 0"
    and p: "0 \<le> pnum"
    and bd: "pnum * int PAGE_SIZE < 2 ^ 31"
    and miss: "findFrame pnum (frames poolInfo) = None"
    and full: "findFrame NO_PAGE (frames poolInfo) = None"
    and fifo: "strategy b = RS_FIFO"
  shows "pinPage (Some b) (Some pg) pnum d =
           (case FIFO (b\<lparr>mgmtData := Some (poolInfo\<lparr>readCount := readCount poolInfo + 1,
                                         recentHitCount := recentHitCount poolInfo + 1\<rparr>)\<rparr>)
                   \<lparr>data = Some (freadAt (PAGE_SIZE * nat pnum) PAGE_SIZE
                                   (grown (pnum + 1) bytes)),
                    pageNumber = pnum, dirtybit = False, accessCount = 1,
                    secondChance = False, recentHit = 0, index = 0\<rparr>
                   (d(pageFile b \<mapsto> grown (pnum + 1) bytes)) of
              (b2, d2) \<Rightarrow>
                (RC_OK, Some b2,
                 Some \<lparr>pageNum = pnum,
                       hdata = Some (freadAt (PAGE_SIZE * nat pnum) PAGE_SIZE
                                       (grown (pnum + 1) bytes))\<rparr>,
                 d2))"
proof -
  note ld = loadPage_ok [where d = d, OF fl al p bd]
  from loadPage_parts [OF ld] obtain rce fh1 fh2 where
    ens: "ensureCapacity (int32 (pnum + 1)) (Some (openedHandle (pageFile b) bytes)) d
            = (rce, fh1, d(pageFile b \<mapsto> grown (pnum + 1) bytes))"
    and rd: "readBlock pnum fh1 mallocPage (d(pageFile b \<mapsto> grown (pnum + 1) bytes))
            = (RC_OK, fh2,
               Some (freadAt (PAGE_SIZE * nat pnum) PAGE_SIZE (grown (pnum + 1) bytes)))"
    by blast
  show ?thesis
    using pool miss full fifo openPageFile_opened [where d = d, OF fl]
    by (simp add: pinPage_def pinPage_replace_def ens rd Let_def split: prod.splits)
qed

lemma unpinPage_step:
  assumes pool: "mgmtData b = Some poolInfo"
    and fr: "findFrame p (frames poolInfo) = Some i"
    and pos: "0 < accessCount (frames poolInfo ! i)"
  shows "unpinPage (Some b) (Some \<lparr>pageNum = p, hdata = h\<rparr>) d =
           (RC_OK,
            Some (b\<lparr>mgmtData := Some (poolInfo\<lparr>frames :=
                (frames poolInfo)[i := (frames poolInfo ! i)
                    \<lparr>accessCount := accessCount (frames poolInfo ! i) - 1\<rparr>]\<rparr>)\<rparr>),
            d)"
  using assms by (simp add: unpinPage_def)

section \<open>Concrete pools and disks\<close>

lemma emptyFrame_sel [simp]:
  "pageNumber emptyFrame = NO_PAGE" "accessCount emptyFrame = 0" "data emptyFrame = None"
  "dirtybit emptyFrame = False"
  by (simp_all add: emptyFrame_def)

lemma cleanFrame_sel [simp]:
  "pageNumber (cleanFrame buf q pins) = q" "accessCount (cleanFrame buf q pins) = pins"
  "data (cleanFrame buf q pins) = Some buf" "dirtybit (cleanFrame buf q pins) = False"
  by (simp_all add: cleanFrame_def)

lemma cold_emptyFrame:
  "emptyFrame\<lparr>data := Some buf, pageNumber := p, accessCount := 1, dirtybit := False,
              index := 0\<rparr> = cleanFrame buf p 1"
  by (simp add: emptyFrame_def cleanFrame_def)

lemma unpin_cleanFrame:
  "(cleanFrame buf p pins)\<lparr>accessCount := n\<rparr> = cleanFrame buf p n"
  by (simp add: cleanFrame_def)

lemma FIFO_first_free:
  assumes "mgmtData b = Some poolInfo" "frames poolInfo = cleanFrame buf q 0 # fs"
    "frameIndex poolInfo = 0"
  shows "FIFO b page d =
           (b\<lparr>mgmtData := Some (poolInfo\<lparr>frames :=
                 (cleanFrame buf q 0)\<lparr>data := data page, pageNumber := pageNumber page,
                     dirtybit := dirtybit page, accessCount := accessCount page\<rparr> # fs,
               frameIndex := 1 mod (Suc (length fs))\<rparr>)\<rparr>, d)"
proof -
  have "bufferSize poolInfo = Suc (length fs)" using assms(2) by (simp add: bufferSize_def)
  then show ?thesis
    using assms by (simp add: FIFO_def writeVictim_def Let_def)
qed


lemma exDisk_db: "exDisk k ''db'' = Some (replicate (k * PAGE_SIZE) 0)"
  by (simp add: exDisk_def)

lemma exDisk_aligned: "length (replicate (k * PAGE_SIZE) (0 :: byte)) mod PAGE_SIZE = 0"
  by simp

lemma grown_zeros:
  "n \<le> int k \<Longrightarrow> grown n (replicate (k * PAGE_SIZE) 0) = replicate (k * PAGE_SIZE) 0"
  by (simp add: grown_def pagesOfSize_mult)

lemma freadAt_zeros:
  assumes "0 \<le> p" "p < int k"
  shows "freadAt (PAGE_SIZE * nat p) PAGE_SIZE (replicate (k * PAGE_SIZE) 0) = replicate PAGE_SIZE 0"
proof -
  have "nat p + 1 \<le> k" using assms by linarith
  then have "(nat p + 1) * PAGE_SIZE \<le> k * PAGE_SIZE" by (rule mult_le_mono1)
  then have "PAGE_SIZE \<le> k * PAGE_SIZE - PAGE_SIZE * nat p" by (simp add: algebra_simps)
  then show ?thesis by (simp add: freadAt_def min_def)
qed

lemma exDisk_same: "(exDisk k)(''db'' \<mapsto> replicate (k * PAGE_SIZE) 0) = exDisk k"
  by (simp add: exDisk_def)

lemma cold_exFrame:
  "emptyFrame\<lparr>data := Some (replicate PAGE_SIZE 0), pageNumber := p, accessCount := 1,
              dirtybit := False, index := 0\<rparr> = exFrame p 1 False"
  by (simp add: emptyFrame_def exFrame_def)

lemma exFrame_sel [simp]:
  "pageNumber (exFrame p pins dirty) = p" "accessCount (exFrame p pins dirty) = pins"
  "data (exFrame p pins dirty) = Some (replicate PAGE_SIZE 0)"
  "dirtybit (exFrame p pins dirty) = dirty"
  by (simp_all add: exFrame_def)

lemma exFrame_upd [simp]:
  "(exFrame p pins dirty)\<lparr>accessCount := n\<rparr> = exFrame p n dirty"
  "(exFrame p pins dirty)\<lparr>dirtybit := x\<rparr> = exFrame p pins x"
  by (simp_all add: exFrame_def)

lemma exPoolAt_sel [simp]:
  "mgmtData (exPoolAt strat fs r h c) =
     Some \<lparr>frames = fs, readCount = r, writeCount = 0, recentHitCount = h,
           frameIndex = c, clockPointer = 0\<rparr>"
  "pageFile (exPoolAt strat fs r h c) = ''db''" "strategy (exPoolAt strat fs r h c) = strat"
  by (simp_all add: exPoolAt_def)

lemma ex_init:
  "initBufferPool (Some (exPool RS_FIFO [])) (Some ''db'') (int (Suc n)) RS_FIFO =
     (RC_OK, Some (exPoolAt RS_FIFO (replicate (Suc n) emptyFrame) 0 0 0))"
  by (simp add: initBufferPool_def exPool_def exPoolAt_def del: replicate.simps)

lemma ex_cold:
  assumes miss: "findFrame p fs = None" and empty: "findFrame NO_PAGE fs = Some i"
    and e: "fs ! i = emptyFrame" and p: "0 \<le> p" "p < int k"
    and bd: "p * int PAGE_SIZE < 2 ^ 31"
  shows "pinPage (Some (exPoolAt RS_FIFO fs r h c)) (Some pg) p (exDisk k) =
           (RC_OK, Some (exPoolAt RS_FIFO (fs[i := exFrame p 1 False]) (r + 1) (h + 1) c),
            Some \<lparr>pageNum = p, hdata = Some (replicate PAGE_SIZE 0)\<rparr>, exDisk k)"
proof -
  have g: "grown (p + 1) (replicate (k * PAGE_SIZE) 0) = replicate (k * PAGE_SIZE) 0"
    using p by (intro grown_zeros) simp
  show ?thesis
    using pinPage_cold_step [where b = "exPoolAt RS_FIFO fs r h c"
        and poolInfo = "\<lparr>frames = fs, readCount = r, writeCount = 0, recentHitCount = h,
                         frameIndex = c, clockPointer = 0\<rparr>"
        and d = "exDisk k" and bytes = "replicate (k * PAGE_SIZE) 0" and pnum = p and i = i
        and pg = pg] miss empty p bd
    by (simp add: exDisk_db g freadAt_zeros exDisk_same e cold_exFrame) (simp add: exPoolAt_def)
qed

lemma ex_unpin:
  assumes "findFrame p fs = Some i" "fs ! i = exFrame p (n + 1) dirty" "0 \<le> n"
  shows "unpinPage (Some (exPoolAt RS_FIFO fs r h c)) (Some \<lparr>pageNum = p, hdata = x\<rparr>) d =
           (RC_OK, Some (exPoolAt RS_FIFO (fs[i := exFrame p n dirty]) r h c), d)"
  using unpinPage_step [where b = "exPoolAt RS_FIFO fs r h c"
        and poolInfo = "\<lparr>frames = fs, readCount = r, writeCount = 0, recentHitCount = h,
                         frameIndex = c, clockPointer = 0\<rparr>"
        and p = p and i = i and h = x and d = d] assms
  by simp (simp add: exPoolAt_def)

lemma ex_dirty:
  assumes "findFrame p fs = Some i" "fs ! i = exFrame p n dirty"
  shows "markDirty (Some (exPoolAt RS_FIFO fs r h c)) (Some \<lparr>pageNum = p, hdata = x\<rparr>) d =
           (RC_OK, Some (exPoolAt RS_FIFO (fs[i := exFrame p n True]) r h c), d)"
  using assms by (simp add: markDirty_def) (simp add: exPoolAt_def)

lemma reachable_ex0: "reachable (exPoolAt RS_FIFO (replicate (Suc n) emptyFrame) 0 0 0) d"
  using ex_init by (rule r_init)

text \<open>Two frames, page 0 free and page 1 pinned.\<close>

lemma reachable_ex2:
  "reachable (exPoolAt RS_FIFO [exFrame 0 0 False, exFrame 1 1 False] 2 2 0) (exDisk 3)"
proof -
  have np: "NO_PAGE \<noteq> 0" "NO_PAGE \<noteq> 1" "0 \<noteq> NO_PAGE" "1 \<noteq> NO_PAGE"
    by (simp_all add: NO_PAGE_def)
  have bd: "1 * int PAGE_SIZE < 2 ^ 31" by (simp add: PAGE_SIZE_def)
  have r0: "reachable (exPoolAt RS_FIFO [emptyFrame, emptyFrame] 0 0 0) (exDisk 3)"
    using reachable_ex0 [of 1 "exDisk 3"] by (simp add: numeral_2_eq_2)
  have "pinPage (Some (exPoolAt RS_FIFO [emptyFrame, emptyFrame] 0 0 0)) (Some (exPage 0)) 0
           (exDisk 3) =
         (RC_OK, Some (exPoolAt RS_FIFO [exFrame 0 1 False, emptyFrame] 1 1 0),
          Some \<lparr>pageNum = 0, hdata = Some (replicate PAGE_SIZE 0)\<rparr>, exDisk 3)"
    using ex_cold [where fs = "[emptyFrame, emptyFrame]" and p = 0 and i = 0 and k = 3
        and r = 0 and h = 0 and c = 0 and pg = "exPage 0"]
    by (simp add: np)
  from r_pin [OF r0 this]
  have r1: "reachable (exPoolAt RS_FIFO [exFrame 0 1 False, emptyFrame] 1 1 0) (exDisk 3)" .
  have "pinPage (Some (exPoolAt RS_FIFO [exFrame 0 1 False, emptyFrame] 1 1 0)) (Some (exPage 0)) 1
           (exDisk 3) =
         (RC_OK, Some (exPoolAt RS_FIFO [exFrame 0 1 False, exFrame 1 1 False] 2 2 0),
          Some \<lparr>pageNum = 1, hdata = Some (replicate PAGE_SIZE 0)\<rparr>, exDisk 3)"
    using ex_cold [where fs = "[exFrame 0 1 False, emptyFrame]" and p = 1 and i = 1 and k = 3
        and r = 1 and h = 1 and c = 0 and pg = "exPage 0"] bd
    by (simp add: np)
  from r_pin [OF r1 this]
  have r2: "reachable (exPoolAt RS_FIFO [exFrame 0 1 False, exFrame 1 1 False] 2 2 0) (exDisk 3)" .
  have "unpinPage (Some (exPoolAt RS_FIFO [exFrame 0 1 False, exFrame 1 1 False] 2 2 0))
           (Some \<lparr>pageNum = 0, hdata = None\<rparr>) (exDisk 3) =
         (RC_OK, Some (exPoolAt RS_FIFO [exFrame 0 0 False, exFrame 1 1 False] 2 2 0), exDisk 3)"
    using ex_unpin [where fs = "[exFrame 0 1 False, exFrame 1 1 False]" and p = 0 and i = 0
        and n = 0 and dirty = False and r = 2 and h = 2 and c = 0 and x = None
        and d = "exDisk 3"]
    by simp
  from r_unpin [OF r2 this] show ?thesis .
qed

lemma FIFO_head:
  assumes "mgmtData b = Some poolInfo" "frames poolInfo = f # fs" "frameIndex poolInfo = 0"
    "accessCount f = 0"
  shows "pageNumber (poolFrames (Some (fst (FIFO b page d))) ! 0) = pageNumber page"
proof -
  have "bufferSize poolInfo = Suc (length fs)" using assms(2) by (simp add: bufferSize_def)
  then show ?thesis
    using assms
    by (simp add: FIFO_def writeVictim_victimWrite Let_def poolFrames_def split: prod.splits)
qed

lemma pinPage_fifo_evicts_head:
  assumes pool: "mgmtData b = Some poolInfo"
    and fl: "d (pageFile b) = Some bytes"
    and al: "length bytes mod PAGE_SIZE = 0"
    and p: "0 \<le> pnum"
    and bd: "pnum * int PAGE_SIZE < 2 ^ 31"
    and miss: "findFrame pnum (frames poolInfo) = None"
    and full: "findFrame NO_PAGE (frames poolInfo) = None"
    and fifo: "strategy b = RS_FIFO"
    and hd: "frames poolInfo = f # fs" "frameIndex poolInfo = 0" "accessCount f = 0"
  shows "pageNumber (poolFrames (fst (snd (pinPage (Some b) (Some pg) pnum d))) ! 0) = pnum"
proof -
  let ?p1 = "poolInfo\<lparr>readCount := readCount poolInfo + 1,
                       recentHitCount := recentHitCount poolInfo + 1\<rparr>"
  let ?b1 = "b\<lparr>mgmtData := Some ?p1\<rparr>"
  let ?nf = "\<lparr>data = Some (freadAt (PAGE_SIZE * nat pnum) PAGE_SIZE (grown (pnum + 1) bytes)),
              pageNumber = pnum, dirtybit = False, accessCount = 1,
              secondChance = False, recentHit = 0, index = 0\<rparr>"
  let ?d1 = "d(pageFile b \<mapsto> grown (pnum + 1) bytes)"
  have "fst (snd (pinPage (Some b) (Some pg) pnum d)) = Some (fst (FIFO ?b1 ?nf ?d1))"
    using pinPage_replace_step [OF pool _ al p bd miss full fifo, where d = d and pg = pg] fl
    by (simp split: prod.splits)
  moreover have "pageNumber (poolFrames (Some (fst (FIFO ?b1 ?nf ?d1))) ! 0) = pageNumber ?nf"
    by (rule FIFO_head [where poolInfo = ?p1 and f = f and fs = fs]) (simp_all add: hd)
  ultimately show ?thesis by simp
qed

text \<open>FIFO on a dirty head frame whose page lies beyond the end of the page file: the
  write fails, is counted, and the frame is taken.\<close>

lemma FIFO_head_write_fails:
  assumes "mgmtData b = Some poolInfo" "frames poolInfo = f # fs" "frameIndex poolInfo = 0"
    "accessCount f = 0" "dirtybit f" "d (pageFile b) = Some bytes"
    "pagesOfSize (length bytes) < pageNumber f"
  shows "FIFO b page d =
           (b\<lparr>mgmtData := Some (poolInfo\<lparr>writeCount := writeCount poolInfo + 1,
               frames := f\<lparr>data := data page, pageNumber := pageNumber page,
                            dirtybit := dirtybit page, accessCount := accessCount page\<rparr> # fs,
               frameIndex := 1 mod (Suc (length fs))\<rparr>)\<rparr>, d)"
proof -
  have w: "writeBlock (pageNumber f)
             (Some \<lparr>fileName = pageFile b, curPagePos = 0,
                     totalNumPages = pagesOfSize (length bytes)\<rparr>) (data f) d
           = (RC_WRITE_FAILED,
              Some \<lparr>fileName = pageFile b, curPagePos = 0,
                     totalNumPages = pagesOfSize (length bytes)\<rparr>, d)"
    using assms(7) by (cases "data f") (simp_all add: writeBlock_def)
  have wv: "writeVictim b 0 poolInfo d = (poolInfo\<lparr>writeCount := writeCount poolInfo + 1\<rparr>, d)"
    using assms(2,5) openPageFile_ok [where d = d, OF assms(6)] w
    by (simp add: writeVictim_def)
  show ?thesis
    using assms(1,2,3,4) wv by (simp add: FIFO_def Let_def bufferSize_def)
qed

section \<open>Properties of \<^verbatim>\<open>pinPage\<close>: eviction and the FIFO scenario\<close>

text \<open>
  Claim C1. The claim says that \<^verbatim>\<open>pinPage\<close> fails when every frame holds a page and
  is pinned and the requested page is in no frame. The code does not: FIFO, LRU and
  CLOCK return nothing, so when they find no victim \<^verbatim>\<open>pinPage\<close> still returns
  \<^verbatim>\<open>RC_OK\<close>. For a page file of whole pages and a page number \<open>pnum\<close> that is not
  negative, with \<open>pnum * PAGE_SIZE\<close> below \<open>2\<^sup>3\<^sup>1\<close> so that the page can be read,
  \<^verbatim>\<open>pinPage\<close> returns \<^verbatim>\<open>RC_OK\<close>, the frames keep their pages, pin counts and dirty
  flags, and \<^verbatim>\<open>readCount\<close> has gone up by one.
\<close>

theorem pinPage_all_pinned:
  assumes pool: "mgmtData b = Some poolInfo"
    and fi: "frameIndex poolInfo < length (frames poolInfo)"
    and cp: "clockPointer poolInfo < length (frames poolInfo)"
    and strat: "strategy b \<noteq> RS_OTHER"
    and full: "\<forall>f \<in> set (frames poolInfo). pageNumber f \<noteq> NO_PAGE \<and> 0 < accessCount f"
    and miss: "pnum \<notin> pageNumber ` set (frames poolInfo)"
    and p: "0 \<le> pnum"
    and bd: "pnum * int PAGE_SIZE < 2 ^ 31"
    and fl: "d (pageFile b) = Some bytes"
    and al: "length bytes mod PAGE_SIZE = 0"
  shows "\<exists>bm' pg' d'. pinPage (Some b) (Some pg) pnum d = (RC_OK, bm', pg', d')
           \<and> getFrameContents bm' = getFrameContents (Some b)
           \<and> getFixCounts bm' = getFixCounts (Some b)
           \<and> getDirtyFlags bm' = getDirtyFlags (Some b)
           \<and> getNumReadIO bm' = getNumReadIO (Some b) + 1"
proof -
  let ?fs = "frames poolInfo"
  obtain rc bm' pg' d' where run: "pinPage (Some b) (Some pg) pnum d = (rc, bm', pg', d')"
    by (metis prod_cases4)
  from pinPage_outcome [OF pool fi cp run] obtain p' where p':
    "bm' = Some (b\<lparr>mgmtData := Some p'\<rparr>)" "length (frames p') = length ?fs"
    "pinOutcome b poolInfo pnum d rc p' d'" by blast
  have m: "findFrame pnum ?fs = None" using miss by (simp add: findFrame_None)
  have "NO_PAGE \<notin> pageNumber ` set ?fs" using full by auto
  then have e: "findFrame NO_PAGE ?fs = None" by (simp add: findFrame_None)
  note ld = loadPage_ok [where d = d, OF fl al p bd]
  from p'(3) fl m e strat have rc: "rc = RC_OK" "readCount p' = readCount poolInfo + 1"
    and so: "strategyOutcome (pageFile b)
                         (loadedFrame
                            (Some (freadAt (PAGE_SIZE * nat pnum) PAGE_SIZE
                                     (grown (pnum + 1) bytes))) pnum)
                         ?fs (writeCount poolInfo)
                         (d(pageFile b \<mapsto> grown (pnum + 1) bytes))
                         (frames p') (writeCount p') d'"
    by (simp_all add: pinOutcome_def ld)
  have pinned: "\<forall>idx<length ?fs. accessCount (?fs ! idx) \<noteq> 0"
    using full by (metis less_irrefl nth_mem)
  from so pinned have keep: "\<forall>j<length ?fs. sameCore (frames p' ! j) (?fs ! j)"
    by (auto simp: strategyOutcome_def)
  have eq: "map pageNumber (frames p') = map pageNumber ?fs"
    "map accessCount (frames p') = map accessCount ?fs"
    "map dirtybit (frames p') = map dirtybit ?fs"
    using keep p'(2) by (auto simp: list_eq_iff_nth_eq sameCore_def)
  have "map (\<lambda>f. if pageNumber f = NO_PAGE then NO_PAGE else pageNumber f) (frames p')
          = map (\<lambda>f. if pageNumber f = NO_PAGE then NO_PAGE else pageNumber f) ?fs"
    using eq(1) by simp
  moreover have "map (\<lambda>f. if accessCount f > 0 then accessCount f else 0) (frames p')
          = map (\<lambda>f. if accessCount f > 0 then accessCount f else 0) ?fs"
    using keep p'(2) by (auto simp: list_eq_iff_nth_eq sameCore_def)
  ultimately show ?thesis
    using run rc p'(1) eq(3) pool
    by (simp add: getFrameContents_def getFixCounts_def getDirtyFlags_def getNumReadIO_def)
qed

theorem pinPage_all_pinned_witness:
  "fst (pinPage (Some (exPool RS_FIFO [exFrame 0 1 False])) (Some (exPage 0)) 1 (exDisk 1))
     = RC_OK
   \<and> getFrameContents
       (fst (snd (pinPage (Some (exPool RS_FIFO [exFrame 0 1 False])) (Some (exPage 0)) 1
                    (exDisk 1))))
     = Some [0]
   \<and> getFixCounts
       (fst (snd (pinPage (Some (exPool RS_FIFO [exFrame 0 1 False])) (Some (exPage 0)) 1
                    (exDisk 1))))
     = Some [1]"
proof -
  have bd: "1 * int PAGE_SIZE < 2 ^ 31" by (simp add: PAGE_SIZE_def)
  show ?thesis
    using pinPage_all_pinned
      [where b = "exPool RS_FIFO [exFrame 0 1 False]" and poolInfo = "exInfo [exFrame 0 1 False]"
         and pnum = 1 and d = "exDisk 1" and bytes = "replicate (1 * PAGE_SIZE) 0"
         and pg = "exPage 0"] bd
    by (auto simp: exPool_def exInfo_def exDisk_def NO_PAGE_def getFrameContents_def
          getFixCounts_def)
qed

text \<open>
  Claim C2. In every reachable state, a frame whose page number differs after a
  \<^verbatim>\<open>pinPage\<close> from the page it held before had pin count 0 before the call; and a
  frame that holds a page and has a pin count other than 0 keeps its buffer, its page
  number and its dirty flag. This covers FIFO, LRU and CLOCK.
\<close>

theorem pinPage_never_evicts_pinned:
  assumes reach: "reachable b d" and pool: "mgmtData b = Some poolInfo"
    and run: "pinPage (Some b) (Some pg) pnum d = (rc, bm', pg', d')"
  shows "\<forall>i<length (frames poolInfo). pageNumber (frames poolInfo ! i) \<noteq> NO_PAGE \<longrightarrow>
           (pageNumber (poolFrames bm' ! i) \<noteq> pageNumber (frames poolInfo ! i)
              \<longrightarrow> accessCount (frames poolInfo ! i) = 0)
         \<and> (accessCount (frames poolInfo ! i) \<noteq> 0
              \<longrightarrow> data (poolFrames bm' ! i) = data (frames poolInfo ! i)
                \<and> pageNumber (poolFrames bm' ! i) = pageNumber (frames poolInfo ! i)
                \<and> dirtybit (poolFrames bm' ! i) = dirtybit (frames poolInfo ! i))"
proof (intro allI impI)
  fix i assume i: "i < length (frames poolInfo)"
    and res: "pageNumber (frames poolInfo ! i) \<noteq> NO_PAGE"
  from pinPage_frames [OF reach pool run] obtain p' where p':
    "length (frames p') = length (frames poolInfo)" "poolFrames bm' = frames p'"
    "pinOutcome b poolInfo pnum d rc p' d'" by blast
  from pinPage_frame_fate [OF p'(3,1) i res]
  show "(pageNumber (poolFrames bm' ! i) \<noteq> pageNumber (frames poolInfo ! i)
              \<longrightarrow> accessCount (frames poolInfo ! i) = 0)
         \<and> (accessCount (frames poolInfo ! i) \<noteq> 0
              \<longrightarrow> data (poolFrames bm' ! i) = data (frames poolInfo ! i)
                \<and> pageNumber (poolFrames bm' ! i) = pageNumber (frames poolInfo ! i)
                \<and> dirtybit (poolFrames bm' ! i) = dirtybit (frames poolInfo ! i))"
    unfolding p'(2) by auto
qed

theorem pinPage_never_evicts_pinned_witness:
  "reachable (exPoolAt RS_FIFO [exFrame 0 0 False, exFrame 1 1 False] 2 2 0) (exDisk 3)
   \<and> accessCount ([exFrame 0 0 False, exFrame 1 1 False] ! 1) = 1
   \<and> pageNumber (poolFrames (fst (snd
         (pinPage (Some (exPoolAt RS_FIFO [exFrame 0 0 False, exFrame 1 1 False] 2 2 0))
            (Some (exPage 0)) 2 (exDisk 3)))) ! 1) = 1
   \<and> pageNumber (poolFrames (fst (snd
         (pinPage (Some (exPoolAt RS_FIFO [exFrame 0 0 False, exFrame 1 1 False] 2 2 0))
            (Some (exPage 0)) 2 (exDisk 3)))) ! 0) = 2"
proof -
  let ?b = "exPoolAt RS_FIFO [exFrame 0 0 False, exFrame 1 1 False] 2 2 0"
  let ?pi = "\<lparr>frames = [exFrame 0 0 False, exFrame 1 1 False], readCount = 2, writeCount = 0,
               recentHitCount = 2, frameIndex = 0, clockPointer = 0\<rparr>"
  let ?r = "pinPage (Some ?b) (Some (exPage 0)) 2 (exDisk 3)"
  have run: "?r = (fst ?r, fst (snd ?r), fst (snd (snd ?r)), snd (snd (snd ?r)))" by simp
  have bd: "2 * int PAGE_SIZE < 2 ^ 31" by (simp add: PAGE_SIZE_def)
  have "pageNumber (poolFrames (fst (snd ?r)) ! 1) = 1"
    using pinPage_never_evicts_pinned [OF reachable_ex2 _ run, where poolInfo = ?pi]
    by (simp add: NO_PAGE_def)
  moreover have "pageNumber (poolFrames (fst (snd ?r)) ! 0) = 2"
    by (rule pinPage_fifo_evicts_head
          [where poolInfo = ?pi and bytes = "replicate (3 * PAGE_SIZE) 0"
             and f = "exFrame 0 0 False" and fs = "[exFrame 1 1 False]", OF _ _ _ _ bd])
       (simp_all add: exDisk_db NO_PAGE_def)
  ultimately show ?thesis using reachable_ex2 by simp
qed

text \<open>
  Claim C3. The claim says that the bytes of a dirty victim are never discarded without
  a disk write. The code discards them when that write fails: FIFO, LRU and CLOCK
  ignore what \<^verbatim>\<open>writeBlock\<close> returns, count the write and take the frame, where
  \<^verbatim>\<open>forcePage\<close> and \<^verbatim>\<open>forceFlushPool\<close> test the code and keep the frame dirty. In the
  scenario \<open>recreateScenario\<close> the page file is created anew while page 5 is dirty in
  the one frame of a FIFO pool; the pin of page 0 then evicts page 5. All seven calls
  return \<^verbatim>\<open>RC_OK\<close>, the frame holds page 0 and is clean, \<^verbatim>\<open>writeCount\<close> is 1, and the
  page file is one block of zeros: whatever \<open>buf\<close> the client wrote into page 5 is in
  no frame and not in the file.
\<close>

theorem recreateScenario_discards_dirty_page:
  "(case recreateScenario b0 pg buf d of
      (rcs, bm, d') \<Rightarrow>
        rcs = replicate 7 RC_OK
        \<and> getFrameContents bm = Some [0]
        \<and> getDirtyFlags bm = Some [False]
        \<and> getNumWriteIO bm = 1
        \<and> d' ''db'' = Some (replicate PAGE_SIZE 0))"
proof -
  let ?B = "\<lambda>p. b0\<lparr>pageFile := ''db'', numPages := 1, strategy := RS_FIFO, mgmtData := Some p\<rparr>"
  let ?P = "\<lambda>fs n w. \<lparr>frames = fs, readCount = n, writeCount = w, recentHitCount = n,
                      frameIndex = 0, clockPointer = 0\<rparr>"
  let ?z = "replicate PAGE_SIZE (0 :: byte)"
  let ?d0 = "d(''db'' \<mapsto> ?z)"
  let ?g = "grown 6 ?z"
  let ?u5 = "freadAt (PAGE_SIZE * nat 5) PAGE_SIZE ?g"
  let ?d2 = "?d0(''db'' \<mapsto> ?g)"
  have np: "NO_PAGE \<noteq> 5" "5 \<noteq> NO_PAGE" "NO_PAGE \<noteq> 0" "0 \<noteq> NO_PAGE"
    by (simp_all add: NO_PAGE_def)
  have bd: "5 * int PAGE_SIZE < 2 ^ 31" by (simp add: PAGE_SIZE_def)
  have s0: "createPageFile ''db'' True d = (RC_OK, ?d0)"
    by (simp add: createPageFile_def)
  let ?p0 = "?P [emptyFrame] 0 0"
  have s1: "initBufferPool (Some b0) (Some ''db'') 1 RS_FIFO = (RC_OK, Some (?B ?p0))"
    by (simp add: initBufferPool_def)
  let ?p1 = "?P [cleanFrame ?u5 5 1] 1 0"
  let ?h = "Some \<lparr>pageNum = 5, hdata = Some ?u5\<rparr>"
  have s2: "pinPage (Some (?B ?p0)) (Some pg) 5 ?d0 = (RC_OK, Some (?B ?p1), ?h, ?d2)"
    using pinPage_cold_step [where b = "?B ?p0" and poolInfo = ?p0 and d = ?d0 and bytes = ?z
        and pnum = 5 and i = 0 and pg = pg] bd
    by (simp add: cold_emptyFrame np)
  let ?p1w = "?P [cleanFrame buf 5 1] 1 0"
  have s3a: "clientWrite (Some (?B ?p1)) ?h buf = Some (?B ?p1w)"
    by (simp add: clientWrite_def np cleanFrame_def)
  let ?p3 = "?P [(cleanFrame buf 5 1)\<lparr>dirtybit := True\<rparr>] 1 0"
  have s3: "markDirty (Some (?B ?p1w)) ?h ?d2 = (RC_OK, Some (?B ?p3), ?d2)"
    by (simp add: markDirty_def np)
  let ?f4 = "(cleanFrame buf 5 0)\<lparr>dirtybit := True\<rparr>"
  let ?p4 = "?P [?f4] 1 0"
  have s4: "unpinPage (Some (?B ?p3)) ?h ?d2 = (RC_OK, Some (?B ?p4), ?d2)"
    using unpinPage_step [where b = "?B ?p3" and poolInfo = ?p3 and p = 5 and i = 0
        and h = "Some ?u5" and d = ?d2]
    by (simp add: cleanFrame_def np)
  let ?d5 = "?d2(''db'' \<mapsto> ?z)"
  have s5: "createPageFile ''db'' True ?d2 = (RC_OK, ?d5)"
    by (simp add: createPageFile_def)
  have gz: "grown 1 ?z = ?z"
    using grown_zeros [of 1 1] by simp
  have rz: "freadAt 0 PAGE_SIZE ?z = ?z"
    by (simp add: freadAt_def)
  let ?nf = "\<lparr>data = Some ?z, pageNumber = 0, dirtybit = False, accessCount = 1,
              secondChance = False, recentHit = 0, index = 0\<rparr>"
  let ?p4' = "?p4\<lparr>readCount := 2, recentHitCount := 2\<rparr>"
  let ?f6 = "?f4\<lparr>data := Some ?z, pageNumber := 0, dirtybit := False, accessCount := 1\<rparr>"
  let ?p6 = "?p4'\<lparr>writeCount := 1, frames := [?f6], frameIndex := 0\<rparr>"
  have f: "FIFO (?B ?p4') ?nf ?d5 = (?B ?p6, ?d5)"
    using FIFO_head_write_fails [where b = "?B ?p4'" and poolInfo = ?p4' and f = ?f4
        and fs = "[]" and d = ?d5 and bytes = ?z and page = ?nf]
    by (simp add: cleanFrame_def pagesOfSize_def PAGE_SIZE_pos)
  have s6: "pinPage (Some (?B ?p4)) (Some pg) 0 ?d5 =
              (RC_OK, Some (?B ?p6), Some \<lparr>pageNum = 0, hdata = Some ?z\<rparr>, ?d5)"
  proof -
    have "pinPage (Some (?B ?p4)) (Some pg) 0 ?d5 =
            (case FIFO (?B ?p4') ?nf ?d5 of
               (b2, d2) \<Rightarrow> (RC_OK, Some b2, Some \<lparr>pageNum = 0, hdata = Some ?z\<rparr>, d2))"
      using pinPage_replace_step [where b = "?B ?p4" and poolInfo = ?p4
          and d = ?d5 and bytes = ?z and pnum = 0 and pg = pg]
      by (simp add: np cleanFrame_def gz rz)
    then show ?thesis unfolding f by simp
  qed
  have "recreateScenario b0 pg buf d =
          ([RC_OK, RC_OK, RC_OK, RC_OK, RC_OK, RC_OK, RC_OK], Some (?B ?p6), ?d5)"
    by (simp only: recreateScenario_def s0 s1 s2 s3a s3 s4 s5 s6 prod.case)
  moreover have "replicate 7 RC_OK = [RC_OK, RC_OK, RC_OK, RC_OK, RC_OK, RC_OK, RC_OK]"
    by (simp add: eval_nat_numeral)
  moreover have "getFrameContents (Some (?B ?p6)) = Some [0]"
    "getDirtyFlags (Some (?B ?p6)) = Some [False]" "getNumWriteIO (Some (?B ?p6)) = 1"
    by (simp_all add: getFrameContents_def getDirtyFlags_def getNumWriteIO_def cleanFrame_def
          NO_PAGE_def)
  ultimately show ?thesis by simp
qed

theorem recreateScenario_discards_dirty_page_witness:
  "(case recreateScenario (exPool RS_FIFO []) (exPage 0) (replicate PAGE_SIZE 1) Map.empty of
      (rcs, bm, d') \<Rightarrow>
        rcs = replicate 7 RC_OK
        \<and> getFrameContents bm = Some [0]
        \<and> getDirtyFlags bm = Some [False]
        \<and> getNumWriteIO bm = 1
        \<and> d' ''db'' = Some (replicate PAGE_SIZE 0))"
  using recreateScenario_discards_dirty_page
    [of "exPool RS_FIFO []" "exPage 0" "replicate PAGE_SIZE 1" Map.empty] .

text \<open>
  Claim C7. On a page file of whole pages, a fresh FIFO pool of three frames that
  pins pages 1, 2 and 3, unpins each and pins page 4 returns \<^verbatim>\<open>RC_OK\<close> eight times;
  its frames then hold the pages 4, 2 and 3, and the FIFO cursor \<^verbatim>\<open>frameIndex\<close> is 1.
\<close>

theorem fifoScenario_frames:
  assumes fl: "d fname = Some bytes" and al: "length bytes mod PAGE_SIZE = 0"
  shows "\<exists>poolInfo d'.
           fifoScenario b0 fname pg d =
             (replicate 8 RC_OK,
              Some (b0\<lparr>pageFile := fname, numPages := 3, strategy := RS_FIFO,
                       mgmtData := Some poolInfo\<rparr>),
              d')
         \<and> getFrameContents
              (Some (b0\<lparr>pageFile := fname, numPages := 3, strategy := RS_FIFO,
                        mgmtData := Some poolInfo\<rparr>)) = Some [4, 2, 3]
         \<and> frameIndex poolInfo = 1"
proof -
  let ?B = "\<lambda>p. b0\<lparr>pageFile := fname, numPages := 3, strategy := RS_FIFO, mgmtData := Some p\<rparr>"
  let ?P = "\<lambda>fs n c. \<lparr>frames = fs, readCount = n, writeCount = 0, recentHitCount = n,
                      frameIndex = c, clockPointer = 0\<rparr>"
  let ?g1 = "grown 2 bytes"
  let ?g2 = "grown 3 ?g1"
  let ?g3 = "grown 4 ?g2"
  let ?g4 = "grown 5 ?g3"
  let ?u1 = "freadAt (PAGE_SIZE * nat 1) PAGE_SIZE ?g1"
  let ?u2 = "freadAt (PAGE_SIZE * nat 2) PAGE_SIZE ?g2"
  let ?u3 = "freadAt (PAGE_SIZE * nat 3) PAGE_SIZE ?g3"
  let ?u4 = "freadAt (PAGE_SIZE * nat 4) PAGE_SIZE ?g4"
  have a1: "length ?g1 mod PAGE_SIZE = 0" using al by (rule grown_aligned)
  have a2: "length ?g2 mod PAGE_SIZE = 0" using a1 by (rule grown_aligned)
  have a3: "length ?g3 mod PAGE_SIZE = 0" using a2 by (rule grown_aligned)
  have np: "NO_PAGE \<noteq> 1" "NO_PAGE \<noteq> 2" "NO_PAGE \<noteq> 3" "NO_PAGE \<noteq> 4"
     "1 \<noteq> NO_PAGE" "2 \<noteq> NO_PAGE" "3 \<noteq> NO_PAGE" "4 \<noteq> NO_PAGE"
    by (simp_all add: NO_PAGE_def)
  have bd: "1 * int PAGE_SIZE < 2 ^ 31" "2 * int PAGE_SIZE < 2 ^ 31"
    "3 * int PAGE_SIZE < 2 ^ 31" "4 * int PAGE_SIZE < 2 ^ 31"
    by (simp_all add: PAGE_SIZE_def)
  let ?p0 = "?P [emptyFrame, emptyFrame, emptyFrame] 0 0"
  have s0: "initBufferPool (Some b0) (Some fname) 3 RS_FIFO = (RC_OK, Some (?B ?p0))"
    by (simp add: initBufferPool_def numeral_3_eq_3)
  let ?p1 = "?P [cleanFrame ?u1 1 1, emptyFrame, emptyFrame] 1 0"
  have s1: "pinPage (Some (?B ?p0)) (Some pg) 1 d =
              (RC_OK, Some (?B ?p1), Some \<lparr>pageNum = 1, hdata = Some ?u1\<rparr>, d(fname \<mapsto> ?g1))"
    using pinPage_cold_step [where b = "?B ?p0" and poolInfo = ?p0 and d = d and bytes = bytes
        and pnum = 1 and i = 0 and pg = pg] fl al bd(1)
    by (simp add: cold_emptyFrame np)
  let ?p2 = "?P [cleanFrame ?u1 1 1, cleanFrame ?u2 2 1, emptyFrame] 2 0"
  have s2: "pinPage (Some (?B ?p1)) (Some pg) 2 (d(fname \<mapsto> ?g1)) =
              (RC_OK, Some (?B ?p2), Some \<lparr>pageNum = 2, hdata = Some ?u2\<rparr>, d(fname \<mapsto> ?g2))"
    using pinPage_cold_step [where b = "?B ?p1" and poolInfo = ?p1 and d = "d(fname \<mapsto> ?g1)"
        and bytes = ?g1 and pnum = 2 and i = 1 and pg = pg] a1 bd(2)
    by (simp add: cold_emptyFrame np)
  let ?p3 = "?P [cleanFrame ?u1 1 1, cleanFrame ?u2 2 1, cleanFrame ?u3 3 1] 3 0"
  have s3: "pinPage (Some (?B ?p2)) (Some pg) 3 (d(fname \<mapsto> ?g2)) =
              (RC_OK, Some (?B ?p3), Some \<lparr>pageNum = 3, hdata = Some ?u3\<rparr>, d(fname \<mapsto> ?g3))"
    using pinPage_cold_step [where b = "?B ?p2" and poolInfo = ?p2 and d = "d(fname \<mapsto> ?g2)"
        and bytes = ?g2 and pnum = 3 and i = 2 and pg = pg] a2 bd(3)
    by (simp add: cold_emptyFrame numeral_2_eq_2 np)
  let ?p4 = "?P [cleanFrame ?u1 1 0, cleanFrame ?u2 2 1, cleanFrame ?u3 3 1] 3 0"
  have s4: "unpinPage (Some (?B ?p3)) (Some \<lparr>pageNum = 1, hdata = Some ?u1\<rparr>) (d(fname \<mapsto> ?g3)) =
              (RC_OK, Some (?B ?p4), d(fname \<mapsto> ?g3))"
    using unpinPage_step [where b = "?B ?p3" and poolInfo = ?p3 and p = 1 and i = 0
        and h = "Some ?u1" and d = "d(fname \<mapsto> ?g3)"]
    by (simp add: unpin_cleanFrame np)
  let ?p5 = "?P [cleanFrame ?u1 1 0, cleanFrame ?u2 2 0, cleanFrame ?u3 3 1] 3 0"
  have s5: "unpinPage (Some (?B ?p4)) (Some \<lparr>pageNum = 2, hdata = Some ?u2\<rparr>) (d(fname \<mapsto> ?g3)) =
              (RC_OK, Some (?B ?p5), d(fname \<mapsto> ?g3))"
    using unpinPage_step [where b = "?B ?p4" and poolInfo = ?p4 and p = 2 and i = 1
        and h = "Some ?u2" and d = "d(fname \<mapsto> ?g3)"]
    by (simp add: unpin_cleanFrame np)
  let ?p6 = "?P [cleanFrame ?u1 1 0, cleanFrame ?u2 2 0, cleanFrame ?u3 3 0] 3 0"
  have s6: "unpinPage (Some (?B ?p5)) (Some \<lparr>pageNum = 3, hdata = Some ?u3\<rparr>) (d(fname \<mapsto> ?g3)) =
              (RC_OK, Some (?B ?p6), d(fname \<mapsto> ?g3))"
    using unpinPage_step [where b = "?B ?p5" and poolInfo = ?p5 and p = 3 and i = 2
        and h = "Some ?u3" and d = "d(fname \<mapsto> ?g3)"]
    by (simp add: unpin_cleanFrame numeral_2_eq_2 np)
  let ?p7 = "?P [cleanFrame ?u4 4 1, cleanFrame ?u2 2 0, cleanFrame ?u3 3 0] 4 1"
  have s7: "pinPage (Some (?B ?p6)) (Some pg) 4 (d(fname \<mapsto> ?g3)) =
              (RC_OK, Some (?B ?p7), Some \<lparr>pageNum = 4, hdata = Some ?u4\<rparr>, d(fname \<mapsto> ?g4))"
  proof -
    let ?p6' = "?P [cleanFrame ?u1 1 0, cleanFrame ?u2 2 0, cleanFrame ?u3 3 0] 3 0
                  \<lparr>readCount := 4, recentHitCount := 4\<rparr>"
    let ?nf = "\<lparr>data = Some ?u4, pageNumber = 4, dirtybit = False, accessCount = 1,
                secondChance = False, recentHit = 0, index = 0\<rparr>"
    have f: "FIFO (?B ?p6') ?nf (d(fname \<mapsto> ?g4)) = (?B ?p7, d(fname \<mapsto> ?g4))"
      using FIFO_first_free [where b = "?B ?p6'" and poolInfo = ?p6' and buf = ?u1 and q = 1
          and fs = "[cleanFrame ?u2 2 0, cleanFrame ?u3 3 0]" and page = ?nf
          and d = "d(fname \<mapsto> ?g4)"]
      by (simp add: cleanFrame_def)
    have "pinPage (Some (?B ?p6)) (Some pg) 4 (d(fname \<mapsto> ?g3)) =
            (case FIFO (?B ?p6') ?nf (d(fname \<mapsto> ?g4)) of
               (b2, d2) \<Rightarrow> (RC_OK, Some b2, Some \<lparr>pageNum = 4, hdata = Some ?u4\<rparr>, d2))"
      using pinPage_replace_step [where b = "?B ?p6" and poolInfo = ?p6
          and d = "d(fname \<mapsto> ?g3)" and bytes = ?g3 and pnum = 4 and pg = pg] a3 bd(4)
      by (simp add: np)
    then show ?thesis unfolding f by simp
  qed
  have "fifoScenario b0 fname pg d =
          ([RC_OK, RC_OK, RC_OK, RC_OK, RC_OK, RC_OK, RC_OK, RC_OK],
           Some (?B ?p7), d(fname \<mapsto> ?g4))"
    by (simp only: fifoScenario_def s0 s1 s2 s3 s4 s5 s6 s7 prod.case)
  moreover have "replicate 8 RC_OK = [RC_OK, RC_OK, RC_OK, RC_OK, RC_OK, RC_OK, RC_OK, RC_OK]"
    by (simp add: eval_nat_numeral)
  ultimately have run:
    "fifoScenario b0 fname pg d = (replicate 8 RC_OK, Some (?B ?p7), d(fname \<mapsto> ?g4))"
    by simp
  have "getFrameContents (Some (?B ?p7)) = Some [4, 2, 3]"
    by (simp add: getFrameContents_def cleanFrame_def NO_PAGE_def)
  then show ?thesis using run by (intro exI [of _ ?p7] exI [of _ "d(fname \<mapsto> ?g4)"]) simp
qed

theorem fifoScenario_frames_witness:
  "\<exists>poolInfo d'.
           fifoScenario (exPool RS_FIFO []) ''db'' (exPage 0) (exDisk 1) =
             (replicate 8 RC_OK,
              Some ((exPool RS_FIFO [])\<lparr>pageFile := ''db'', numPages := 3, strategy := RS_FIFO,
                       mgmtData := Some poolInfo\<rparr>),
              d')
         \<and> getFrameContents
              (Some ((exPool RS_FIFO [])\<lparr>pageFile := ''db'', numPages := 3,
                        strategy := RS_FIFO, mgmtData := Some poolInfo\<rparr>)) = Some [4, 2, 3]
         \<and> frameIndex poolInfo = 1"
  using fifoScenario_frames [where d = "exDisk 1" and fname = "''db''"
      and bytes = "replicate (1 * PAGE_SIZE) 0" and ?b0.0 = "exPool RS_FIFO []"
      and pg = "exPage 0"]
  by (simp add: exDisk_def)

end
